theory Spec2Isabelle
  imports Complex_Main "HOL-Library.Word"
begin

unbundle bit_operations_syntax

section \<open>Floating-point numbers\<close>

text \<open>
  A \<^verbatim>\<open>float64\<close> is a real number that the format can hold, an infinity, or NaN. The two
  zeros of the format are one value here; the sign of a zero decides a result of this
  program only in \<^verbatim>\<open>math.Pow\<close> of a zero base to a negative odd power, which is left open
  below. Every arithmetic operation computes the exact result and rounds it to the
  nearest value of the format, ties to the even significand; a result whose rounded
  magnitude reaches \<open>2 ^ 1024\<close> is an infinity. Each operation rounds on its own: the
  compiler is taken not to fuse a product and a sum into one operation.
\<close>

datatype float64 = Finite real | PInf | NInf | NaN

text \<open>The nearest integer, a tie going to the even one.\<close>

definition round_even :: "real \<Rightarrow> int" where
  "round_even t =
     (let f = \<lfloor>t\<rfloor>; d = t - of_int f
      in if d < 1 / 2 then f else if 1 / 2 < d then f + 1 else if even f then f else f + 1)"

text \<open>
  The exponent of the unit in the last place at \<open>x\<close>: 52 below the binary exponent of
  \<open>x\<close>, and never less than \<open>- 1074\<close> (the subnormal numbers).
\<close>

definition exponent64 :: "real \<Rightarrow> int" where
  "exponent64 x = max \<lfloor>log 2 \<bar>x\<bar>\<rfloor> (- 1022) - 52"

definition nearest64 :: "real \<Rightarrow> real" where
  "nearest64 x =
     (let u = 2 powr of_int (exponent64 x) in of_int (round_even (x / u)) * u)"

definition overflow64 :: real where
  "overflow64 = 2 ^ 1024"

definition round64 :: "real \<Rightarrow> float64" where
  "round64 x =
     (if overflow64 \<le> \<bar>nearest64 x\<bar> then (if 0 < x then PInf else NInf)
      else Finite (nearest64 x))"

text \<open>The real numbers that the format holds: those that rounding leaves alone.\<close>

definition is_double :: "real \<Rightarrow> bool" where
  "is_double x = (round64 x = Finite x)"

fun fneg :: "float64 \<Rightarrow> float64" where
  "fneg (Finite a) = Finite (- a)"
| "fneg PInf = NInf"
| "fneg NInf = PInf"
| "fneg NaN = NaN"

fun fadd :: "float64 \<Rightarrow> float64 \<Rightarrow> float64" where
  "fadd NaN y = NaN"
| "fadd x NaN = NaN"
| "fadd PInf NInf = NaN"
| "fadd NInf PInf = NaN"
| "fadd PInf y = PInf"
| "fadd x PInf = PInf"
| "fadd NInf y = NInf"
| "fadd x NInf = NInf"
| "fadd (Finite a) (Finite b) = round64 (a + b)"

definition fsub :: "float64 \<Rightarrow> float64 \<Rightarrow> float64" where
  "fsub x y = fadd x (fneg y)"

fun fmul :: "float64 \<Rightarrow> float64 \<Rightarrow> float64" where
  "fmul NaN y = NaN"
| "fmul x NaN = NaN"
| "fmul (Finite a) (Finite b) = round64 (a * b)"
| "fmul (Finite a) PInf = (if a = 0 then NaN else if 0 < a then PInf else NInf)"
| "fmul (Finite a) NInf = (if a = 0 then NaN else if 0 < a then NInf else PInf)"
| "fmul PInf (Finite b) = (if b = 0 then NaN else if 0 < b then PInf else NInf)"
| "fmul NInf (Finite b) = (if b = 0 then NaN else if 0 < b then NInf else PInf)"
| "fmul PInf PInf = PInf"
| "fmul PInf NInf = NInf"
| "fmul NInf PInf = NInf"
| "fmul NInf NInf = PInf"

text \<open>The comparisons \<^verbatim>\<open><\<close>, \<^verbatim>\<open>>\<close> and \<^verbatim>\<open>>=\<close>: false whenever an operand is NaN.\<close>

fun flt :: "float64 \<Rightarrow> float64 \<Rightarrow> bool" where
  "flt NaN y = False"
| "flt x NaN = False"
| "flt (Finite a) (Finite b) = (a < b)"
| "flt x NInf = False"
| "flt NInf y = True"
| "flt PInf y = False"
| "flt x PInf = True"

definition fgt :: "float64 \<Rightarrow> float64 \<Rightarrow> bool" where
  "fgt x y = flt y x"

definition fge :: "float64 \<Rightarrow> float64 \<Rightarrow> bool" where
  "fge x y = (x \<noteq> NaN \<and> y \<noteq> NaN \<and> \<not> flt x y)"

text \<open>
  \<^verbatim>\<open>math.Floor\<close> and \<^verbatim>\<open>math.Min\<close> of the Go library, with their special cases:
  \<^verbatim>\<open>Min(x, -Inf) = Min(-Inf, x) = -Inf\<close> first, then \<^verbatim>\<open>Min(x, NaN) = Min(NaN, x) = NaN\<close>.
\<close>

fun math_Floor :: "float64 \<Rightarrow> float64" where
  "math_Floor (Finite a) = Finite (of_int \<lfloor>a\<rfloor>)"
| "math_Floor x = x"

definition math_Min :: "float64 \<Rightarrow> float64 \<Rightarrow> float64" where
  "math_Min x y =
     (if x = NInf \<or> y = NInf then NInf
      else if x = NaN \<or> y = NaN then NaN
      else if flt x y then x else y)"

text \<open>
  The conversions \<^verbatim>\<open>int(f)\<close> and \<^verbatim>\<open>time.Duration(f)\<close> of a \<^verbatim>\<open>float64\<close> to a 64-bit integer
  discard the fraction. Where the value does not fit, Go leaves the result to the
  implementation; the value here is what amd64 gives, the least 64-bit integer.
\<close>

definition int64_of_float64 :: "float64 \<Rightarrow> int" where
  "int64_of_float64 x =
     (case x of
        Finite a \<Rightarrow>
          (let t = (if 0 \<le> a then \<lfloor>a\<rfloor> else \<lceil>a\<rceil>)
           in if - (2 ^ 63) \<le> t \<and> t < 2 ^ 63 then t else - (2 ^ 63))
      | _ \<Rightarrow> - (2 ^ 63))"

definition is_integer :: "real \<Rightarrow> bool" where
  "is_integer y = (y = of_int \<lfloor>y\<rfloor>)"

text \<open>
  \<^verbatim>\<open>math.Pow(x, y)\<close> of the Go library. Its documented special cases come first, in the
  library's order. For the other arguments the library computes the power with a small
  error that its documentation does not bound, so the result is fixed here only where it
  is beyond doubt: a power of a positive base that is at least \<open>2 ^ 1025\<close> overflows to
  \<^verbatim>\<open>+Inf\<close>, and a natural power that the format holds is returned exactly (the library
  multiplies by repeated squaring, and every factor of such a power is exact). Elsewhere
  the result is whatever the library returns: the argument \<open>lib\<close>.
\<close>

definition Pow ::
  "(real \<Rightarrow> real \<Rightarrow> float64) \<Rightarrow> float64 \<Rightarrow> float64 \<Rightarrow> float64" where
  "Pow lib x y =
     (if y = Finite 0 then Finite 1
      else if x = Finite 1 then Finite 1
      else if y = Finite 1 then x
      else if x = NaN \<or> y = NaN then NaN
      else
        (case (x, y) of
           (Finite a, Finite b) \<Rightarrow>
             (if a = 0 then
                (if b < 0
                 then (if is_integer b \<and> odd \<lfloor>b\<rfloor> then lib a b else PInf)
                 else Finite 0)
              else if a < 0 \<and> \<not> is_integer b then NaN
              else if 0 < a \<and> 2 * overflow64 \<le> a powr b then PInf
              else if is_integer b \<and> 0 \<le> b \<and> is_double (a ^ nat \<lfloor>b\<rfloor>)
                then Finite (a ^ nat \<lfloor>b\<rfloor>)
              else lib a b)
         | (Finite a, PInf) \<Rightarrow>
             (if a = - 1 then Finite 1 else if 1 < \<bar>a\<bar> then PInf else Finite 0)
         | (Finite a, NInf) \<Rightarrow>
             (if a = - 1 then Finite 1 else if 1 < \<bar>a\<bar> then Finite 0 else PInf)
         | (PInf, Finite b) \<Rightarrow> (if 0 < b then PInf else Finite 0)
         | (NInf, Finite b) \<Rightarrow>
             (if 0 < b then (if is_integer b \<and> odd \<lfloor>b\<rfloor> then NInf else PInf)
              else Finite 0)
         | (_, PInf) \<Rightarrow> PInf
         | (_, NInf) \<Rightarrow> Finite 0
         | _ \<Rightarrow> NaN))"

text \<open>
  A stand-in for the library in concrete runs that stay inside the cases that \<open>Pow\<close>
  fixes: it is never consulted there.
\<close>

definition no_lib :: "real \<Rightarrow> real \<Rightarrow> float64" where
  "no_lib a b = NaN"

section \<open>Retry strategy (exponential backoff with jitter)\<close>

record RetryStrategy =
  rs_ms :: float64
  rs_max :: float64
  rs_factor :: float64
  rs_jitter :: float64
  rs_attempts :: float64

definition NewBackOff :: "RetryStrategy \<Rightarrow> RetryStrategy" where
  "NewBackOff opts =
     \<lparr>rs_ms = rs_ms opts, rs_max = rs_max opts, rs_factor = rs_factor opts,
      rs_jitter = rs_jitter opts, rs_attempts = rs_attempts opts\<rparr>"

text \<open>
  \<^verbatim>\<open>Duration\<close> reads one value from \<^verbatim>\<open>rand.Float64()\<close> when the jitter is positive; the
  draw is the argument \<open>randVal\<close>, a \<^verbatim>\<open>float64\<close> in \<open>[0, 1)\<close>. The result is the returned
  delay and the strategy with its counter advanced.
\<close>

definition Duration ::
  "(real \<Rightarrow> real \<Rightarrow> float64) \<Rightarrow> float64 \<Rightarrow> RetryStrategy \<Rightarrow> float64 \<times> RetryStrategy" where
  "Duration lib randVal b =
     (let ms = fmul (rs_ms b) (Pow lib (rs_factor b) (rs_attempts b));
          b' = b\<lparr>rs_attempts := fadd (rs_attempts b) (Finite 1)\<rparr>;
          ms' = (if fgt (rs_jitter b') (Finite 0) then
                   (let deviation = math_Floor (fmul (fmul randVal (rs_jitter b')) ms);
                        jitterDecision =
                          int64_of_float64 (math_Floor (fmul randVal (Finite 10))) AND 1
                    in if jitterDecision = 0 then fsub ms deviation else fadd ms deviation)
                 else ms)
      in (math_Min ms' (rs_max b'), b'))"

definition Reset :: "RetryStrategy \<Rightarrow> RetryStrategy" where
  "Reset b = b\<lparr>rs_attempts := Finite 0\<rparr>"

definition SetMin :: "float64 \<Rightarrow> RetryStrategy \<Rightarrow> RetryStrategy" where
  "SetMin ms b = b\<lparr>rs_ms := ms\<rparr>"

definition SetMax :: "float64 \<Rightarrow> RetryStrategy \<Rightarrow> RetryStrategy" where
  "SetMax m b = b\<lparr>rs_max := m\<rparr>"

definition SetJitter :: "float64 \<Rightarrow> RetryStrategy \<Rightarrow> RetryStrategy" where
  "SetJitter j b = b\<lparr>rs_jitter := j\<rparr>"



section \<open>Polling transport: the frame encoder\<close>

type_synonym byte = "8 word"

datatype error =
    EOF
  | ErrPingTimeout
  | ErrSeparatorInTextFrame
  | ErrNonCloseFrame
  | errUnavailableRootHandler
  | ErrorsNew string
  | External string

text \<open>
  Modelled from the spec: the constant \<^verbatim>\<open>separator\<close> is declared outside the files at
  hand; it is the reserved frame delimiter, the byte \<^verbatim>\<open>0x1e\<close> that the message of
  \<^verbatim>\<open>ErrSeparatorInTextFrame\<close> names. The constant \<^verbatim>\<open>binaryPrefix\<close> is missing as well
  and its value is stated nowhere: it is a parameter of \<open>NextFrame\<close>.
\<close>

definition separator :: byte where
  "separator = 0x1e"

text \<open>Modelled from the spec: the two kinds of \<^verbatim>\<open>frame.Type\<close>.\<close>

datatype frame_type = Text | Binary

text \<open>
  Modelled from the spec: \<^verbatim>\<open>bufWriter\<close> and its methods are not among the files at hand.
  The spec describes the buffer as a growable byte sequence: a write appends, and
  \<^verbatim>\<open>WriteFinishedFrames\<close> writes the entire accumulated contents to the output in one
  call and clears the buffer.
\<close>

record bufWriter =
  buf :: "byte list"

text \<open>Modelled from the spec: \<^verbatim>\<open>newBufWriter\<close> starts the buffer with the bytes given.\<close>

definition newBufWriter :: "byte list \<Rightarrow> bufWriter" where
  "newBufWriter b = \<lparr>buf = b\<rparr>"

text \<open>Modelled from the spec: \<^verbatim>\<open>bufWriter.WriteByte\<close> appends one byte to the buffer.\<close>

definition bw_WriteByte :: "byte \<Rightarrow> bufWriter \<Rightarrow> error option \<times> bufWriter" where
  "bw_WriteByte b w = (None, w\<lparr>buf := buf w @ [b]\<rparr>)"

text \<open>Modelled from the spec: \<^verbatim>\<open>bufWriter.Write\<close> appends the bytes to the buffer.\<close>

definition bw_Write :: "byte list \<Rightarrow> bufWriter \<Rightarrow> (nat \<times> error option) \<times> bufWriter" where
  "bw_Write p w = ((length p, None), w\<lparr>buf := buf w @ p\<rparr>)"

text \<open>
  An \<^verbatim>\<open>io.Writer\<close> handed in by the caller: it records the argument of every \<^verbatim>\<open>Write\<close>
  call, and \<open>wr_err\<close> is the error its \<^verbatim>\<open>Write\<close> reports, if any.
\<close>

record ioWriter =
  wr_calls :: "byte list list"
  wr_err :: "error option"

definition io_Write :: "byte list \<Rightarrow> ioWriter \<Rightarrow> (nat \<times> error option) \<times> ioWriter" where
  "io_Write p out =
     ((case wr_err out of None \<Rightarrow> length p | Some _ \<Rightarrow> 0, wr_err out),
      out\<lparr>wr_calls := wr_calls out @ [p]\<rparr>)"

text \<open>
  Modelled from the spec: \<^verbatim>\<open>bufWriter.WriteFinishedFrames\<close> writes the entire accumulated
  buffer contents to the output in one call and clears the buffer; it returns what that
  call returns.
\<close>

definition bw_WriteFinishedFrames ::
  "ioWriter \<Rightarrow> bufWriter \<Rightarrow> (nat \<times> error option) \<times> bufWriter \<times> ioWriter" where
  "bw_WriteFinishedFrames out w =
     (let (res, out') = io_Write (buf w) out in (res, w\<lparr>buf := []\<rparr>, out'))"

subsection \<open>The base64 encoder of the Go library\<close>

text \<open>
  \<^verbatim>\<open>base64.StdEncoding\<close>: the alphabet of RFC 4648 with \<^verbatim>\<open>=\<close> padding. Three bytes
  make a 24-bit number whose four 6-bit digits index the alphabet; a last group of one
  or two bytes gives two or three digits and is padded to four characters.
\<close>

definition encodeStd :: string where
  "encodeStd = ''ABCDEFGHIJKLMNOPQRSTUVWXYZabcdefghijklmnopqrstuvwxyz0123456789+/''"

definition StdPadding :: byte where
  "StdPadding = 0x3d"

definition b64char :: "nat \<Rightarrow> byte" where
  "b64char s = of_char (encodeStd ! s)"

fun index_of :: "'a \<Rightarrow> 'a list \<Rightarrow> nat option" where
  "index_of x [] = None"
| "index_of x (y # ys) = (if x = y then Some 0 else map_option Suc (index_of x ys))"

definition b64val :: "byte \<Rightarrow> nat option" where
  "b64val c = index_of c (map of_char encodeStd)"

fun b64encode :: "byte list \<Rightarrow> byte list" where
  "b64encode (a # b # c # rest) =
     (let val = unat a * 65536 + unat b * 256 + unat c
      in [b64char (val div 262144), b64char (val div 4096 mod 64),
          b64char (val div 64 mod 64), b64char (val mod 64)] @ b64encode rest)"
| "b64encode [a, b] =
     (let val = unat a * 65536 + unat b * 256
      in [b64char (val div 262144), b64char (val div 4096 mod 64),
          b64char (val div 64 mod 64), StdPadding])"
| "b64encode [a] =
     (let val = unat a * 65536
      in [b64char (val div 262144), b64char (val div 4096 mod 64), StdPadding, StdPadding])"
| "b64encode [] = []"

fun b64decode :: "byte list \<Rightarrow> byte list option" where
  "b64decode [] = Some []"
| "b64decode (c0 # c1 # c2 # c3 # rest) =
     (if rest = [] \<and> c3 = StdPadding then
        (if c2 = StdPadding then
           (case (b64val c0, b64val c1) of
              (Some s0, Some s1) \<Rightarrow>
                Some [of_nat ((s0 * 262144 + s1 * 4096) div 65536)]
            | _ \<Rightarrow> None)
         else
           (case (b64val c0, b64val c1, b64val c2) of
              (Some s0, Some s1, Some s2) \<Rightarrow>
                (let val = s0 * 262144 + s1 * 4096 + s2 * 64
                 in Some [of_nat (val div 65536), of_nat (val div 256 mod 256)])
            | _ \<Rightarrow> None))
      else
        (case (b64val c0, b64val c1, b64val c2, b64val c3) of
           (Some s0, Some s1, Some s2, Some s3) \<Rightarrow>
             (let val = s0 * 262144 + s1 * 4096 + s2 * 64 + s3
              in map_option
                   (\<lambda>bs. [of_nat (val div 65536), of_nat (val div 256 mod 256),
                          of_nat (val mod 256)] @ bs)
                   (b64decode rest))
         | _ \<Rightarrow> None))"
| "b64decode _ = None"

text \<open>
  The streaming encoder returned by \<^verbatim>\<open>base64.NewEncoder\<close>: it keeps the bytes of an
  incomplete group (at most two) and writes the encoding of every complete group to the
  underlying writer; \<^verbatim>\<open>Close\<close> writes the padded encoding of what is left.
\<close>

record b64enc =
  pending :: "byte list"

definition NewEncoder :: b64enc where
  "NewEncoder = \<lparr>pending = []\<rparr>"

definition b64_Write ::
  "byte list \<Rightarrow> b64enc \<Rightarrow> bufWriter \<Rightarrow> (nat \<times> error option) \<times> b64enc \<times> bufWriter" where
  "b64_Write p enc w =
     (let all = pending enc @ p;
          n = length all - length all mod 3;
          (_, w') = bw_Write (b64encode (take n all)) w
      in ((length p, None), enc\<lparr>pending := drop n all\<rparr>, w'))"

definition b64_Close :: "b64enc \<Rightarrow> bufWriter \<Rightarrow> error option \<times> b64enc \<times> bufWriter" where
  "b64_Close enc w =
     (if pending enc \<noteq> [] then
        (let (_, w') = bw_Write (b64encode (pending enc)) w
         in (None, enc\<lparr>pending := []\<rparr>, w'))
      else (None, enc, w))"

subsection \<open>Encoder and frame writer\<close>

text \<open>
  Times and durations are integers (nanoseconds). The channel \<^verbatim>\<open>hasFramesChan\<close> has
  capacity one and carries no data: its state is the number of queued tokens. The
  channel \<^verbatim>\<open>closed\<close> is only ever closed, never sent on: its state is whether it has been
  closed.
\<close>

record encoder =
  pingTimeout :: int
  lastPing :: int
  writer :: bufWriter
  hasFramesChan :: nat
  closed_chan :: bool
  hasNonClosedFrame :: "32 word"

definition newEncoder :: "int \<Rightarrow> int \<Rightarrow> bool \<Rightarrow> byte list \<Rightarrow> encoder" where
  "newEncoder now pingTimouet cl b =
     \<lparr>pingTimeout = pingTimouet, lastPing = now, writer = newBufWriter b,
      hasFramesChan = 0, closed_chan = cl, hasNonClosedFrame = 0\<rparr>"

text \<open>
  A frame writer points to the buffer, the channel and the flag of its encoder; the
  operations on it therefore take and return the encoder. Its own state is the base64
  encoder, present for a binary frame only.
\<close>

record frameWriter =
  base64 :: "b64enc option"

definition CompareAndSwapInt32 :: "32 word \<Rightarrow> 32 word \<Rightarrow> 32 word \<Rightarrow> bool \<times> 32 word" where
  "CompareAndSwapInt32 v old new = (if v = old then (True, new) else (False, v))"

definition NextFrame :: "byte \<Rightarrow> frame_type \<Rightarrow> encoder \<Rightarrow> (error + frameWriter) \<times> encoder" where
  "NextFrame binaryPrefix ft e =
     (if closed_chan e then (Inl EOF, e)
      else
        (case CompareAndSwapInt32 (hasNonClosedFrame e) 0 1 of
           (False, _) \<Rightarrow> (Inl ErrNonCloseFrame, e)
         | (True, v) \<Rightarrow>
             (let e1 = e\<lparr>hasNonClosedFrame := v\<rparr>;
                  ret = \<lparr>base64 = None\<rparr>
              in if ft = Binary then
                   (case bw_WriteByte binaryPrefix (writer e1) of
                      (Some err, bw) \<Rightarrow> (Inl err, e1\<lparr>writer := bw\<rparr>)
                    | (None, bw) \<Rightarrow>
                        (Inr (ret\<lparr>base64 := Some NewEncoder\<rparr>), e1\<lparr>writer := bw\<rparr>))
                 else (Inr ret, e1))))"

text \<open>The loop of \<^verbatim>\<open>Write\<close> over the bytes of a text frame: it returns at the first separator.\<close>

fun range_separator :: "byte list \<Rightarrow> error option" where
  "range_separator [] = None"
| "range_separator (by # rest) =
     (if by = separator then Some ErrSeparatorInTextFrame else range_separator rest)"

definition fw_Write ::
  "byte list \<Rightarrow> frameWriter \<Rightarrow> encoder \<Rightarrow> (nat \<times> error option) \<times> frameWriter \<times> encoder" where
  "fw_Write b w e =
     (case base64 w of
        Some enc \<Rightarrow>
          (let (res, enc', bw) = b64_Write b enc (writer e)
           in (res, w\<lparr>base64 := Some enc'\<rparr>, e\<lparr>writer := bw\<rparr>))
      | None \<Rightarrow>
          (case range_separator b of
             Some err \<Rightarrow> ((0, Some err), w, e)
           | None \<Rightarrow>
               (let (res, bw) = bw_Write b (writer e) in (res, w, e\<lparr>writer := bw\<rparr>))))"

definition fw_WriteByte :: "byte \<Rightarrow> frameWriter \<Rightarrow> encoder \<Rightarrow> error option \<times> frameWriter \<times> encoder" where
  "fw_WriteByte b w e =
     (let (err, bw) = bw_WriteByte b (writer e) in (err, w, e\<lparr>writer := bw\<rparr>))"

definition fw_Close :: "frameWriter \<Rightarrow> encoder \<Rightarrow> error option \<times> frameWriter \<times> encoder" where
  "fw_Close w e =
     (let (w1, e1) =
            (case base64 w of
               Some enc \<Rightarrow>
                 (let (_, enc', bw) = b64_Close enc (writer e)
                  in (w\<lparr>base64 := Some enc'\<rparr>, e\<lparr>writer := bw\<rparr>))
             | None \<Rightarrow> (w, e))
      in case bw_WriteByte separator (writer e1) of
           (Some err, bw) \<Rightarrow> (Some err, w1, e1\<lparr>writer := bw\<rparr>)
         | (None, bw) \<Rightarrow>
             (let e2 = e1\<lparr>writer := bw, hasNonClosedFrame := 0\<rparr>;
                  e3 = (if hasFramesChan e2 < 1
                        then e2\<lparr>hasFramesChan := hasFramesChan e2 + 1\<rparr> else e2)
              in (None, w1, e3)))"

text \<open>Successive \<^verbatim>\<open>Write\<close> calls on one frame writer; the results of the calls, in order.\<close>

fun fw_Writes ::
  "byte list list \<Rightarrow> frameWriter \<Rightarrow> encoder \<Rightarrow> (nat \<times> error option) list \<times> frameWriter \<times> encoder" where
  "fw_Writes [] w e = ([], w, e)"
| "fw_Writes (b # bs) w e =
     (let (res, w', e') = fw_Write b w e;
          (ress, w'', e'') = fw_Writes bs w' e'
      in (res # ress, w'', e''))"

text \<open>
  \<^verbatim>\<open>WriteFramesTo\<close> blocks in a \<^verbatim>\<open>select\<close> over three channels. Which case the \<^verbatim>\<open>select\<close>
  takes is decided by the other goroutines and the clock: it is the argument \<open>sel\<close>,
  and \<open>now\<close> is the clock at entry. A case that cannot be taken in the encoder's state
  (nothing queued, timer not yet due, channel not closed) gives \<open>None\<close>.
\<close>

datatype select_case = RecvHasFrames | TimeAfter int | RecvClosed

definition WriteFramesTo ::
  "int \<Rightarrow> select_case \<Rightarrow> ioWriter \<Rightarrow> encoder \<Rightarrow> (error option \<times> encoder \<times> ioWriter) option" where
  "WriteFramesTo now sel out e =
     (let timeout = pingTimeout e - (now - lastPing e) in
      case sel of
        RecvHasFrames \<Rightarrow>
          (if hasFramesChan e = 0 then None
           else
             (let e1 = e\<lparr>hasFramesChan := hasFramesChan e - 1\<rparr>;
                  ((n, err), bw, out') = bw_WriteFinishedFrames out (writer e1)
              in case err of
                   Some er \<Rightarrow> Some (Some er, e1\<lparr>writer := bw\<rparr>, out')
                 | None \<Rightarrow> Some (None, e1\<lparr>writer := bw\<rparr>, out')))
      | TimeAfter now' \<Rightarrow>
          (if now' < now \<or> now' < now + timeout then None
           else Some (Some ErrPingTimeout, e\<lparr>lastPing := now'\<rparr>, out))
      | RecvClosed \<Rightarrow>
          (if closed_chan e then Some (Some EOF, e, out) else None))"


section \<open>Client: connecting, reconnecting, closing\<close>

text \<open>
  The fields of \<^verbatim>\<open>Client\<close> that \<^verbatim>\<open>reconnect\<close>, \<^verbatim>\<open>Connect\<close> and \<^verbatim>\<open>Close\<close> read or write.
  \<open>conn\<close> is \<^verbatim>\<open>nil\<close> or the connection made from the dial with the given number;
  \<open>rootHandler\<close> tells what \<^verbatim>\<open>handlers.Get(rootNamespace)\<close> finds: nothing, or a handler,
  with whether its \<^verbatim>\<open>onError\<close> is set.
\<close>

record Client =
  conn :: "nat option"
  rootHandler :: "bool option"
  retryStrategy :: RetryStrategy
  reconnection :: bool
  reconnecting :: bool
  reconnectionAttempts :: float64

text \<open>
  The client that \<^verbatim>\<open>NewClient\<close> returns for an address that parses: no connection, an
  empty handler registry, the backoff of 3 s doubling up to 10 s with jitter 0.5
  (in nanoseconds), reconnection enabled, and \<^verbatim>\<open>reconnectionAttempts\<close> the value parsed
  from \<^verbatim>\<open>"Infinity"\<close>.
\<close>

definition NewClient :: Client where
  "NewClient =
     \<lparr>conn = None, rootHandler = None,
      retryStrategy = NewBackOff \<lparr>rs_ms = Finite 3000000000, rs_max = Finite 10000000000,
        rs_factor = Finite 2, rs_jitter = Finite (1 / 2), rs_attempts = Finite 0\<rparr>,
      reconnection = True, reconnecting = False, reconnectionAttempts = PInf\<rparr>"

text \<open>
  What the methods do to the outside is recorded as a trace of events. What the
  outside answers is given by \<open>env\<close>: the result of the \<open>i\<close>-th dial, of encoding
  the connect packet on the connection of the \<open>i\<close>-th dial, of closing that connection,
  the \<open>i\<close>-th value of \<^verbatim>\<open>rand.Float64()\<close>, and what \<^verbatim>\<open>math.Pow\<close> returns where \<open>Pow\<close>
  leaves it open. The goroutines started by a successful
  \<^verbatim>\<open>Connect\<close> run concurrently with the caller and are recorded as one event; what they
  do later is not part of a call of these methods.
\<close>

datatype event =
    Sleep int
  | Dial
  | EncodeConnect nat
  | RootOnError error
  | GoClientTasks
  | ConnClose nat

record world =
  trace :: "event list"
  dials :: nat
  draws :: nat

record env =
  dial_result :: "nat \<Rightarrow> error option"
  encode_result :: "nat \<Rightarrow> error option"
  close_result :: "nat \<Rightarrow> error option"
  rand_Float64 :: "nat \<Rightarrow> float64"
  pow_lib :: "real \<Rightarrow> real \<Rightarrow> float64"

text \<open>A call returns a value or panics (a method called on a \<^verbatim>\<open>nil\<close> connection).\<close>

datatype 'a outcome = Returns 'a | Panics

text \<open>The conversion \<^verbatim>\<open>time.Duration(delay)\<close> of a \<^verbatim>\<open>float64\<close> to a count of nanoseconds.\<close>

definition time_Duration :: "float64 \<Rightarrow> int" where
  "time_Duration x = int64_of_float64 x"

definition connectClient :: "env \<Rightarrow> nat \<Rightarrow> Client \<Rightarrow> world \<Rightarrow> error option \<times> world" where
  "connectClient ev g c w =
     (case rootHandler c of
        None \<Rightarrow> (Some errUnavailableRootHandler, w)
      | Some _ \<Rightarrow> (encode_result ev g, w\<lparr>trace := trace w @ [EncodeConnect g]\<rparr>))"

text \<open>
  \<^verbatim>\<open>reconnect\<close>, its \<^verbatim>\<open>for\<close> loop, \<^verbatim>\<open>Connect\<close> and \<^verbatim>\<open>Close\<close> call one another, and the loop
  runs until a \<^verbatim>\<open>Connect\<close> succeeds. The first argument bounds the depth of calls and
  loop rounds; \<open>None\<close> means that the bound was reached before the call returned.
\<close>

fun reconnect ::
      "nat \<Rightarrow> env \<Rightarrow> Client \<times> world \<Rightarrow> (error option outcome \<times> Client \<times> world) option"
  and reconnect_loop ::
      "nat \<Rightarrow> env \<Rightarrow> float64 \<Rightarrow> Client \<times> world \<Rightarrow>
       (error option outcome \<times> Client \<times> world) option"
  and Connect ::
      "nat \<Rightarrow> env \<Rightarrow> Client \<times> world \<Rightarrow> (error option outcome \<times> Client \<times> world) option"
  and Close ::
      "nat \<Rightarrow> env \<Rightarrow> Client \<times> world \<Rightarrow> (error option outcome \<times> Client \<times> world) option"
where
  "reconnect 0 ev (c, w) = None"
| "reconnect (Suc n) ev (c, w) =
     (if reconnecting c then Some (Returns None, c, w)
      else if fge (rs_attempts (retryStrategy c)) (reconnectionAttempts c) then
        Some (Returns (Some (ErrorsNew
                ''reconnect failed: reconnect times more than reconnect attempts'')),
              c\<lparr>retryStrategy := Reset (retryStrategy c), reconnecting := False\<rparr>, w)
      else
        (let (delay, b) = Duration (pow_lib ev) (rand_Float64 ev (draws w)) (retryStrategy c);
             w1 = (if fgt (rs_jitter (retryStrategy c)) (Finite 0)
                   then w\<lparr>draws := draws w + 1\<rparr> else w);
             c1 = c\<lparr>retryStrategy := b, reconnecting := True\<rparr>
         in reconnect_loop n ev delay (c1, w1)))"
| "reconnect_loop 0 ev delay (c, w) = None"
| "reconnect_loop (Suc n) ev delay (c, w) =
     (let w1 = w\<lparr>trace := trace w @ [Sleep (time_Duration delay)]\<rparr>
      in case Connect n ev (c, w1) of
           None \<Rightarrow> None
         | Some (Panics, c2, w2) \<Rightarrow> Some (Panics, c2, w2)
         | Some (Returns None, c2, w2) \<Rightarrow>
             Some (Returns None,
                   c2\<lparr>retryStrategy := Reset (retryStrategy c2), reconnecting := False\<rparr>, w2)
         | Some (Returns (Some err), c2, w2) \<Rightarrow>
             reconnect_loop n ev delay (c2\<lparr>reconnecting := False\<rparr>, w2))"
| "Connect 0 ev (c, w) = None"
| "Connect (Suc n) ev (c, w) =
     (let g = dials w;
          w1 = w\<lparr>trace := trace w @ [Dial], dials := dials w + 1\<rparr>
      in case dial_result ev g of
           Some err \<Rightarrow> Some (Returns (Some err), c, w1)
         | None \<Rightarrow>
             (let c1 = c\<lparr>conn := Some g\<rparr>
              in case connectClient ev g c1 w1 of
                   (Some err, w2) \<Rightarrow>
                     (case Close n ev (c1, w2) of
                        None \<Rightarrow> None
                      | Some (Panics, c3, w3) \<Rightarrow> Some (Panics, c3, w3)
                      | Some (Returns _, c3, w3) \<Rightarrow>
                          Some (Returns (Some err), c3,
                                if rootHandler c3 = Some True
                                then w3\<lparr>trace := trace w3 @ [RootOnError err]\<rparr> else w3))
                 | (None, w2) \<Rightarrow>
                     Some (Returns None, c1, w2\<lparr>trace := trace w2 @ [GoClientTasks]\<rparr>)))"
| "Close 0 ev (c, w) = None"
| "Close (Suc n) ev (c, w) =
     (if reconnection c then
        reconnect n ev (c\<lparr>retryStrategy := Reset (retryStrategy c), reconnecting := False\<rparr>, w)
      else
        (case conn c of
           None \<Rightarrow> Some (Panics, c, w)
         | Some g \<Rightarrow> Some (Returns (close_result ev g), c, w\<lparr>trace := trace w @ [ConnClose g]\<rparr>)))"

text \<open>
  \<open>no_conn_close w w'\<close>: the trace of \<open>w'\<close> extends the trace of \<open>w\<close>, and none of the
  added events is the close of a connection.
\<close>

fun is_ConnClose :: "event \<Rightarrow> bool" where
  "is_ConnClose (ConnClose g) = True"
| "is_ConnClose _ = False"

definition no_conn_close :: "world \<Rightarrow> world \<Rightarrow> bool" where
  "no_conn_close w w' =
     (take (length (trace w)) (trace w') = trace w \<and>
      filter is_ConnClose (drop (length (trace w)) (trace w')) = [])"

text \<open>
  \<open>stays_open c w res\<close>: if reconnection is enabled in \<open>c\<close> and \<open>res\<close> is the result of
  a call started in client state \<open>c\<close> and world \<open>w\<close>, then reconnection is still
  enabled afterwards and the call closed no connection.
\<close>

definition stays_open ::
  "Client \<Rightarrow> world \<Rightarrow> (error option outcome \<times> Client \<times> world) option \<Rightarrow> bool" where
  "stays_open c w res =
     (reconnection c \<longrightarrow>
        (case res of None \<Rightarrow> True
         | Some (r, c', w') \<Rightarrow> reconnection c' \<and> no_conn_close w w'))"

text \<open>
  Environments for concrete runs: every random draw is \<open>1/4\<close>, encoding the connect
  packet and closing succeed; the dial is refused the first time only
  (\<open>env_refused_once\<close>), or never (\<open>env_accepting\<close>).
\<close>

definition env_accepting :: env where
  "env_accepting =
     \<lparr>dial_result = (\<lambda>i. None), encode_result = (\<lambda>i. None),
      close_result = (\<lambda>i. None), rand_Float64 = (\<lambda>i. Finite (1 / 4)), pow_lib = no_lib\<rparr>"

definition env_refused_once :: env where
  "env_refused_once =
     env_accepting\<lparr>dial_result :=
       (\<lambda>i. if i = 0 then Some (External ''connection refused'') else None)\<rparr>"

definition world0 :: world where
  "world0 = \<lparr>trace = [], dials = 0, draws = 0\<rparr>"

section \<open>Properties of rounding\<close>

lemma round_even_of_int: "round_even (of_int n) = n"
  by (simp add: round_even_def)

lemma round_even_le: "t \<le> of_int n \<Longrightarrow> round_even t \<le> n"
proof -
  assume a: "t \<le> of_int n"
  show ?thesis
  proof (cases "t = of_int n")
    case True
    then show ?thesis by (simp add: round_even_of_int)
  next
    case False
    then have "t < of_int n" using a by simp
    then have "\<lfloor>t\<rfloor> < n" by linarith
    then have "\<lfloor>t\<rfloor> + 1 \<le> n" by simp
    then show ?thesis by (auto simp: round_even_def Let_def)
  qed
qed

lemma round_even_ge: "of_int n \<le> t \<Longrightarrow> n \<le> round_even t"
proof -
  assume "of_int n \<le> t"
  then have "n \<le> \<lfloor>t\<rfloor>" by linarith
  then show ?thesis by (auto simp: round_even_def Let_def)
qed

lemma overflow64_powr: "overflow64 = 2 powr of_int 1024"
  by (simp add: overflow64_def powr_realpow [symmetric])

lemma overflow64_pos: "0 < overflow64"
  by (simp add: overflow64_powr)

lemma exponent64_lower: "- 1074 \<le> exponent64 x"
  by (simp add: exponent64_def)

lemma exponent64_abs: "exponent64 \<bar>x\<bar> = exponent64 x"
  by (simp add: exponent64_def)

lemma exponent64_upper:
  assumes "0 < x"
  shows "x < 2 powr of_int (exponent64 x + 53)"
proof -
  have "log 2 x < of_int (\<lfloor>log 2 x\<rfloor> + 1)" by linarith
  also have "\<dots> \<le> of_int (exponent64 x + 53)"
    using assms by (simp add: exponent64_def)
  finally have "log 2 x < of_int (exponent64 x + 53)" .
  then show ?thesis using assms by (simp add: log_less_iff)
qed

lemma exponent64_normal:
  assumes "0 < x" and "- 1074 < exponent64 x"
  shows "2 powr of_int (exponent64 x + 52) \<le> x"
proof -
  have "exponent64 x + 52 = \<lfloor>log 2 x\<rfloor>"
    using assms by (simp add: exponent64_def max_def split: if_splits)
  then have "of_int (exponent64 x + 52) \<le> log 2 x" by simp
  then show ?thesis using assms(1) by (simp add: le_log_iff)
qed

lemma exponent64_mono:
  assumes "0 < x" and "x \<le> c"
  shows "exponent64 x \<le> exponent64 c"
proof -
  have "log 2 x \<le> log 2 c" using assms by simp
  then have "\<lfloor>log 2 x\<rfloor> \<le> \<lfloor>log 2 c\<rfloor>" by (rule floor_mono)
  then show ?thesis using assms by (simp add: exponent64_def)
qed

lemma exponent64_le:
  assumes "0 < y" and "y < 2 powr of_int (k + 53)" and "- 1074 \<le> k"
  shows "exponent64 y \<le> k"
proof -
  have "log 2 y < of_int (k + 53)"
    using assms(1,2) by (simp add: log_less_iff)
  then have "\<lfloor>log 2 y\<rfloor> < k + 53" by linarith
  then show ?thesis using assms by (simp add: exponent64_def)
qed

lemma exponent64_pow2:
  assumes "- 1022 \<le> e"
  shows "exponent64 (2 powr of_int e) = e - 52"
proof -
  have "log 2 (2 powr of_int e) = of_int e" by simp
  then show ?thesis using assms by (simp add: exponent64_def)
qed

lemma pow2_int_diff:
  assumes "k \<le> e"
  shows "(2::real) powr of_int e / 2 powr of_int k = of_int (2 ^ nat (e - k))"
proof -
  have "(2::real) powr of_int e / 2 powr of_int k = 2 powr (of_int e - of_int k)"
    by (simp add: powr_diff)
  also have "\<dots> = 2 powr real (nat (e - k))" using assms by simp
  also have "\<dots> = 2 ^ nat (e - k)" by (simp add: powr_realpow)
  finally show ?thesis by simp
qed

lemma pow2_int_mult:
  assumes "k \<le> e"
  shows "of_int (2 ^ nat (e - k)) * 2 powr of_int k = (2::real) powr of_int e"
  using pow2_int_diff [OF assms] by (simp add: field_simps)

lemma nearest64_0: "nearest64 0 = 0"
  by (simp add: nearest64_def round_even_def)

lemma nearest64_eq:
  "nearest64 x = of_int (round_even (x / 2 powr of_int (exponent64 x))) * 2 powr of_int (exponent64 x)"
  by (simp add: nearest64_def Let_def)

lemma nearest64_exact:
  assumes "x / 2 powr of_int (exponent64 x) = of_int N"
  shows "nearest64 x = x"
proof -
  have "of_int N * 2 powr of_int (exponent64 x) = x"
    using assms by (simp add: field_simps)
  then show ?thesis
    unfolding nearest64_eq assms round_even_of_int .
qed

lemma nearest64_nonneg: "0 \<le> x \<Longrightarrow> 0 \<le> nearest64 x"
proof -
  assume "0 \<le> x"
  then have "of_int 0 \<le> x / 2 powr of_int (exponent64 x)" by simp
  then have "0 \<le> round_even (x / 2 powr of_int (exponent64 x))"
    by (rule round_even_ge)
  then show ?thesis by (simp add: nearest64_eq)
qed

lemma nearest64_nonpos: "x \<le> 0 \<Longrightarrow> nearest64 x \<le> 0"
proof -
  assume "x \<le> 0"
  then have "x / 2 powr of_int (exponent64 x) \<le> of_int 0"
    by (simp add: divide_nonpos_pos)
  then have "round_even (x / 2 powr of_int (exponent64 x)) \<le> 0"
    by (rule round_even_le)
  then show ?thesis by (simp add: nearest64_eq mult_nonpos_nonneg)
qed

lemma is_double_0: "is_double 0"
  by (simp add: is_double_def round64_def nearest64_0 overflow64_pos not_le)

lemma is_doubleI:
  assumes "\<bar>x\<bar> < overflow64" and "x / 2 powr of_int (exponent64 x) = of_int N"
  shows "is_double x"
  using assms(1) nearest64_exact [OF assms(2)] by (simp add: is_double_def round64_def)

lemma is_double_nearest: "is_double x \<Longrightarrow> nearest64 x = x"
  by (auto simp: is_double_def round64_def split: if_splits)

lemma is_double_less: "is_double x \<Longrightarrow> \<bar>x\<bar> < overflow64"
  by (auto simp: is_double_def round64_def split: if_splits)

lemma is_double_quotient:
  assumes "is_double x"
  shows "x / 2 powr of_int (exponent64 x) = of_int (round_even (x / 2 powr of_int (exponent64 x)))"
proof -
  have "of_int (round_even (x / 2 powr of_int (exponent64 x))) * 2 powr of_int (exponent64 x) = x"
    using is_double_nearest [OF assms] by (simp add: nearest64_eq)
  then show ?thesis by (simp add: field_simps)
qed

lemma round64_nonneg:
  assumes "0 \<le> x"
  shows "round64 x = PInf \<or> (\<exists>y. round64 x = Finite y \<and> 0 \<le> y)"
  using nearest64_nonneg [OF assms] assms
  by (cases "x = 0") (auto simp: round64_def nearest64_0 overflow64_pos not_le)

lemma round64_positive:
  assumes "round64 x = Finite m" and "0 < m"
  shows "0 < x"
proof (rule ccontr)
  assume "\<not> 0 < x"
  then have "nearest64 x \<le> 0" by (intro nearest64_nonpos) simp
  then show False using assms by (auto simp: round64_def split: if_splits)
qed

lemma nearest64_below:
  assumes c: "is_double c" and x: "0 < x" "x \<le> c"
  shows "nearest64 x \<le> c"
proof -
  define kx where "kx = exponent64 x"
  define kc where "kc = exponent64 c"
  define nc where "nc = round_even (c / 2 powr of_int kc)"
  have k: "kx \<le> kc"
    unfolding kx_def kc_def using x by (rule exponent64_mono)
  have "c / 2 powr of_int kc = of_int nc"
    unfolding nc_def kc_def using c by (rule is_double_quotient)
  then have cq: "c = of_int nc * 2 powr of_int kc"
    by (simp add: field_simps)
  have "c / 2 powr of_int kx = of_int nc * (2 powr of_int kc / 2 powr of_int kx)"
    by (simp add: cq)
  also have "\<dots> = of_int (nc * 2 ^ nat (kc - kx))"
    by (simp add: pow2_int_diff [OF k])
  finally have cN: "c / 2 powr of_int kx = of_int (nc * 2 ^ nat (kc - kx))" .
  have "x / 2 powr of_int kx \<le> c / 2 powr of_int kx"
    using x(2) by (simp add: divide_right_mono)
  then have "round_even (x / 2 powr of_int kx) \<le> nc * 2 ^ nat (kc - kx)"
    unfolding cN by (rule round_even_le)
  then have "(of_int (round_even (x / 2 powr of_int kx)) :: real) \<le> of_int (nc * 2 ^ nat (kc - kx))"
    by (simp only: of_int_le_iff)
  then have "(of_int (round_even (x / 2 powr of_int kx)) :: real) * 2 powr of_int kx
               \<le> of_int (nc * 2 ^ nat (kc - kx)) * 2 powr of_int kx"
    by (rule mult_right_mono) simp
  also have "\<dots> = c"
    using cN by (simp add: field_simps)
  finally show ?thesis by (simp add: nearest64_eq kx_def)
qed

lemma round64_below:
  assumes c: "is_double c" and x: "0 \<le> x" "x \<le> c"
  shows "\<exists>y. round64 x = Finite y \<and> 0 \<le> y \<and> y \<le> c"
proof (cases "x = 0")
  case True
  then show ?thesis using x by (simp add: round64_def nearest64_0 overflow64_pos not_le)
next
  case False
  then have "nearest64 x \<le> c"
    using nearest64_below [OF c] x by simp
  moreover have "0 \<le> nearest64 x" using x(1) by (rule nearest64_nonneg)
  moreover have "c < overflow64" using is_double_less [OF c] by simp
  ultimately show ?thesis by (simp add: round64_def)
qed

lemma round64_is_double:
  assumes "0 < x" and "round64 x = Finite y"
  shows "is_double y"
proof -
  define k where "k = exponent64 x"
  define n where "n = round_even (x / 2 powr of_int k)"
  have y: "y = of_int n * 2 powr of_int k" and fin: "\<bar>y\<bar> < overflow64"
    using assms by (auto simp: round64_def nearest64_eq k_def n_def split: if_splits)
  have k0: "- 1074 \<le> k" unfolding k_def by (rule exponent64_lower)
  have "x / 2 powr of_int k < 2 powr of_int (k + 53) / 2 powr of_int k"
    using exponent64_upper [OF assms(1)] by (simp add: k_def divide_strict_right_mono)
  also have "\<dots> = of_int (2 ^ 53)"
    using pow2_int_diff [of k "k + 53"] by simp
  finally have "x / 2 powr of_int k \<le> of_int (2 ^ 53)" by simp
  then have "round_even (x / 2 powr of_int k) \<le> 2 ^ 53"
    by (rule round_even_le)
  then have n53: "n \<le> 2 ^ 53" by (simp add: n_def)
  have "of_int 0 \<le> x / 2 powr of_int k" using assms(1) by simp
  then have n0: "0 \<le> n" unfolding n_def by (rule round_even_ge)
  show ?thesis
  proof (cases "n = 0")
    case True
    then show ?thesis by (simp add: y is_double_0)
  next
    case False
    then have yp: "0 < y" using n0 by (simp add: y)
    show ?thesis
    proof (cases "n = 2 ^ 53")
      case True
      have y2: "y = 2 powr of_int (k + 53)"
        using pow2_int_mult [of k "k + 53"] by (simp add: y True)
      have e: "exponent64 y = k + 1"
        unfolding y2 using exponent64_pow2 [of "k + 53"] k0 by simp
      have "y / 2 powr of_int (exponent64 y) = of_int (2 ^ 52)"
        unfolding e unfolding y2 using pow2_int_diff [of "k + 1" "k + 53"] by simp
      then show ?thesis
        using fin by (intro is_doubleI)
    next
      case False
      then have "n < 2 ^ 53" using n53 by simp
      then have "(of_int n :: real) < of_int (2 ^ 53)" by (simp only: of_int_less_iff)
      then have "y < of_int (2 ^ 53) * 2 powr of_int k"
        unfolding y by (rule mult_strict_right_mono) simp
      also have "\<dots> = 2 powr of_int (k + 53)"
        using pow2_int_mult [of k "k + 53"] by simp
      finally have ky: "exponent64 y \<le> k"
        using yp k0 by (intro exponent64_le)
      have "y / 2 powr of_int (exponent64 y) = of_int n * (2 powr of_int k / 2 powr of_int (exponent64 y))"
        by (simp add: y)
      also have "\<dots> = of_int (n * 2 ^ nat (k - exponent64 y))"
        by (simp add: pow2_int_diff [OF ky])
      finally show ?thesis
        using fin by (intro is_doubleI)
    qed
  qed
qed

lemma round64_overflow:
  assumes "overflow64 \<le> x"
  shows "round64 x = PInf"
proof -
  have xp: "0 < x"
    using assms overflow64_pos by linarith
  define k where "k = exponent64 x"
  have "of_int 1024 \<le> log 2 x"
    using assms xp by (simp add: le_log_iff overflow64_powr)
  then have fl: "1024 \<le> \<lfloor>log 2 x\<rfloor>" by linarith
  have ax: "\<bar>x\<bar> = x" using xp by simp
  have kk: "k + 52 = \<lfloor>log 2 x\<rfloor>"
    unfolding k_def exponent64_def ax using fl by linarith
  then have "- 1074 < k" using fl by linarith
  then have lo: "2 powr of_int (k + 52) \<le> x"
    using exponent64_normal [OF xp] by (simp add: k_def)
  have "(of_int (2 ^ 52) :: real) = 2 powr of_int (k + 52) / 2 powr of_int k"
    using pow2_int_diff [of k "k + 52"] by simp
  also have "\<dots> \<le> x / 2 powr of_int k"
    using lo by (simp add: divide_right_mono)
  finally have "2 ^ 52 \<le> round_even (x / 2 powr of_int k)"
    by (rule round_even_ge)
  then have "(of_int (2 ^ 52) :: real) \<le> of_int (round_even (x / 2 powr of_int k))"
    by (simp only: of_int_le_iff)
  then have step: "(of_int (2 ^ 52) :: real) * 2 powr of_int k
               \<le> of_int (round_even (x / 2 powr of_int k)) * 2 powr of_int k"
    by (rule mult_right_mono) simp
  have "overflow64 = 2 powr of_int 1024"
    by (rule overflow64_powr)
  also have "\<dots> \<le> 2 powr of_int (k + 52)"
    by (rule powr_mono) (use fl kk in auto)
  also have "\<dots> = of_int (2 ^ 52) * 2 powr of_int k"
    using pow2_int_mult [of k "k + 52"] by simp
  also note step
  also have "of_int (round_even (x / 2 powr of_int k)) * 2 powr of_int k = nearest64 x"
    by (simp only: nearest64_eq k_def)
  finally have "overflow64 \<le> nearest64 x" .
  then show ?thesis
    using xp by (simp add: round64_def)
qed

lemma is_double_scaled:
  assumes "\<bar>m\<bar> < 2 ^ 53" and "- 1074 \<le> e" and "e \<le> 971"
  shows "is_double (of_int m * 2 powr of_int e)"
proof (cases "m = 0")
  case True
  then show ?thesis by (simp add: is_double_0)
next
  case False
  define x :: real where "x = of_int m * 2 powr of_int e"
  have ax: "\<bar>x\<bar> = of_int \<bar>m\<bar> * 2 powr of_int e"
    by (simp add: x_def abs_mult)
  have "(of_int \<bar>m\<bar> :: real) < of_int (2 ^ 53)"
    using assms(1) by (simp only: of_int_less_iff)
  then have "\<bar>x\<bar> < of_int (2 ^ 53) * 2 powr of_int e"
    unfolding ax by (rule mult_strict_right_mono) simp
  also have "\<dots> = 2 powr of_int (e + 53)"
    using pow2_int_mult [of e "e + 53"] by simp
  finally have up: "\<bar>x\<bar> < 2 powr of_int (e + 53)" .
  have "0 < \<bar>x\<bar>" using False by (simp add: x_def)
  then have "exponent64 \<bar>x\<bar> \<le> e"
    using up assms(2) by (intro exponent64_le)
  then have ke: "exponent64 x \<le> e" by (simp add: exponent64_abs)
  have "(2::real) powr of_int (e + 53) \<le> 2 powr of_int 1024"
    by (rule powr_mono) (use assms(3) in auto)
  then have fin: "\<bar>x\<bar> < overflow64"
    using up by (simp add: overflow64_powr)
  have "x / 2 powr of_int (exponent64 x) = of_int m * (2 powr of_int e / 2 powr of_int (exponent64 x))"
    by (simp add: x_def)
  also have "\<dots> = of_int (m * 2 ^ nat (e - exponent64 x))"
    by (simp add: pow2_int_diff [OF ke])
  finally show ?thesis
    unfolding x_def [symmetric] using fin by (intro is_doubleI)
qed

lemma is_double_of_int: "\<bar>m\<bar> < 2 ^ 53 \<Longrightarrow> is_double (of_int m)"
  using is_double_scaled [of m 0] by simp


lemma is_double_div_pow2:
  assumes "\<bar>m\<bar> < 2 ^ 53" and "k \<le> 1074"
  shows "is_double (of_int m / 2 ^ k)"
proof -
  have "(2::real) powr of_int (- int k) = 1 / 2 ^ k"
    by (simp add: powr_minus powr_realpow inverse_eq_divide)
  then show ?thesis
    using is_double_scaled [of m "- int k"] assms by simp
qed

lemma is_double_1: "is_double 1"
  using is_double_of_int [of 1] by simp

lemma fmul_Finite_is_double:
  assumes "fmul x y = Finite m" and "0 \<le> m"
  shows "is_double m"
proof (cases "m = 0")
  case True
  then show ?thesis by (simp add: is_double_0)
next
  case False
  then have mp: "0 < m" using assms(2) by simp
  obtain a b where xy: "x = Finite a" "y = Finite b"
    using assms(1) by (cases x; cases y) (auto split: if_splits)
  then have r: "round64 (a * b) = Finite m" using assms(1) by simp
  then have "0 < a * b" using mp by (rule round64_positive)
  then show ?thesis using r by (rule round64_is_double)
qed

lemma round64_is_doubleD: "is_double x \<Longrightarrow> round64 x = Finite x"
  by (simp add: is_double_def)

lemma round64_numeral:
  "(numeral n :: int) < 2 ^ 53 \<Longrightarrow> round64 (numeral n) = Finite (numeral n)"
  using is_double_of_int [of "numeral n"] by (simp add: is_double_def)

lemma round64_0: "round64 0 = Finite 0"
  using is_double_0 by (simp add: is_double_def)

lemma round64_1: "round64 1 = Finite 1"
  using is_double_1 by (simp add: is_double_def)

lemma round64_eighth: "round64 (1 / 8) = Finite (1 / 8)"
  using is_double_div_pow2 [of 1 3] by (simp add: is_double_def)

lemma round64_five_halves: "round64 (5 / 2) = Finite (5 / 2)"
  using is_double_div_pow2 [of 5 1] by (simp add: is_double_def)


section \<open>Properties of the retry strategy\<close>






lemma Duration_NewClient:
  "Duration lib (Finite (1 / 4))
     \<lparr>rs_ms = Finite 3000000000, rs_max = Finite 10000000000, rs_factor = Finite 2,
      rs_jitter = Finite (1 / 2), rs_attempts = Finite 0\<rparr>
   = (Finite 2625000000,
      \<lparr>rs_ms = Finite 3000000000, rs_max = Finite 10000000000, rs_factor = Finite 2,
       rs_jitter = Finite (1 / 2), rs_attempts = Finite 1\<rparr>)"
  by (simp add: Duration_def Pow_def fgt_def fsub_def round64_0 round64_1 round64_eighth
        round64_five_halves round64_numeral int64_of_float64_def math_Min_def Let_def)




text \<open>
  C3, as the code has it. For a maximum that is not negative, a jitter fraction between
  0 and 1 and a random draw in \<open>[0, 1)\<close>, whenever the candidate delay
  \<^verbatim>\<open>ms * math.Pow(factor, attempts)\<close> comes out as a number that is not negative (it has
  not overflowed), the delay that \<^verbatim>\<open>Duration\<close> returns is a number between 0 and the
  maximum.
\<close>

theorem Duration_within_bounds:
  assumes cand: "fmul (rs_ms b) (Pow lib (rs_factor b) (rs_attempts b)) = Finite ms" "0 \<le> ms"
    and mx: "rs_max b = Finite maxDelay" "0 \<le> maxDelay"
    and j: "rs_jitter b = Finite jitter" "0 \<le> jitter" "jitter \<le> 1"
    and r: "0 \<le> r" "r < 1"
  shows "\<exists>d. fst (Duration lib (Finite r) b) = Finite d \<and> 0 \<le> d \<and> d \<le> maxDelay"
proof -
  have dm: "is_double ms"
    using cand by (rule fmul_Finite_is_double)
  have minF: "\<exists>d. math_Min (Finite y) (Finite maxDelay) = Finite d \<and> 0 \<le> d \<and> d \<le> maxDelay"
    if "0 \<le> y" for y
    using that mx(2) by (simp add: math_Min_def)
  have minI: "\<exists>d. math_Min PInf (Finite maxDelay) = Finite d \<and> 0 \<le> d \<and> d \<le> maxDelay"
    using mx(2) by (simp add: math_Min_def)
  show ?thesis
  proof (cases "0 < jitter")
    case False
    then show ?thesis
      using cand mx j minF [of ms] by (simp add: Duration_def Let_def fgt_def)
  next
    case True
    have "0 \<le> r * jitter" "r * jitter \<le> 1"
      using r j by (simp_all add: mult_le_one)
    then obtain q where q: "round64 (r * jitter) = Finite q" "0 \<le> q" "q \<le> 1"
      using round64_below [OF is_double_1] by blast
    have "0 \<le> q * ms" "q * ms \<le> ms"
      using q cand(2) by (simp_all add: mult_left_le_one_le)
    then obtain v where v: "round64 (q * ms) = Finite v" "0 \<le> v" "v \<le> ms"
      using round64_below [OF dm] by blast
    define dev :: real where "dev = of_int \<lfloor>v\<rfloor>"
    have dev: "0 \<le> dev" "dev \<le> ms"
      using v unfolding dev_def by (simp, linarith)
    have D: "math_Floor (fmul (fmul (Finite r) (Finite jitter)) (Finite ms)) = Finite dev"
      by (simp add: q v dev_def)
    obtain y where sub: "round64 (ms - dev) = Finite y" "0 \<le> y"
      using round64_below [OF dm, of "ms - dev"] dev by auto
    have add: "round64 (ms + dev) = PInf \<or> (\<exists>y. round64 (ms + dev) = Finite y \<and> 0 \<le> y)"
      using dev cand(2) by (intro round64_nonneg) simp
    have S: "\<exists>d. math_Min (fsub (Finite ms) (Finite dev)) (Finite maxDelay) = Finite d \<and> 0 \<le> d \<and> d \<le> maxDelay"
      using sub minF [of y] by (simp add: fsub_def)
    have A: "\<exists>d. math_Min (fadd (Finite ms) (Finite dev)) (Finite maxDelay) = Finite d \<and> 0 \<le> d \<and> d \<le> maxDelay"
      using add minF minI by auto
    show ?thesis
      using True cand(1) mx(1) j(1) D S A
      by (simp add: Duration_def Let_def fgt_def)
  qed
qed

theorem Duration_within_bounds_witness:
  "fmul (Finite 3000) (Pow no_lib (Finite 2) (Finite 1)) = Finite 6000 \<and>
   fst (Duration no_lib (Finite (1 / 4))
          \<lparr>rs_ms = Finite 3000, rs_max = Finite 10000, rs_factor = Finite 2,
           rs_jitter = Finite (1 / 2), rs_attempts = Finite 1\<rparr>) = Finite 5250"
proof -
  have c: "fmul (Finite 3000) (Pow no_lib (Finite 2) (Finite 1)) = Finite 6000"
    by (simp add: Pow_def round64_numeral)
  have "fst (Duration no_lib (Finite (1 / 4))
          \<lparr>rs_ms = Finite 3000, rs_max = Finite 10000, rs_factor = Finite 2,
           rs_jitter = Finite (1 / 2), rs_attempts = Finite 1\<rparr>) = Finite 5250"
    by (simp add: Duration_def c fgt_def fsub_def round64_eighth round64_five_halves
          round64_numeral int64_of_float64_def math_Min_def Let_def)
  then show ?thesis
    using c Duration_within_bounds [where lib = no_lib and ms = 6000 and maxDelay = 10000
        and jitter = "1 / 2" and r = "1 / 4"
        and b = "\<lparr>rs_ms = Finite 3000, rs_max = Finite 10000, rs_factor = Finite 2,
           rs_jitter = Finite (1 / 2), rs_attempts = Finite 1\<rparr>"]
    by simp
qed

text \<open>
  C3, as the claim states it, fails once the candidate delay overflows: with base 3000,
  factor 2, jitter \<open>1/2\<close>, the counter at 1100 and the draw \<open>1/4\<close>, the candidate and the
  deviation are both \<^verbatim>\<open>+Inf\<close>, their difference is NaN, and \<^verbatim>\<open>math.Min\<close> returns NaN.
\<close>

theorem Duration_overflow_counterexample:
  "fst (Duration no_lib (Finite (1 / 4))
          \<lparr>rs_ms = Finite 3000, rs_max = Finite 10000, rs_factor = Finite 2,
           rs_jitter = Finite (1 / 2), rs_attempts = Finite 1100\<rparr>) = NaN"
proof -
  have "(2::real) powr 1100 = 2 ^ 1100"
    using powr_realpow [of 2 1100] by simp
  then have "2 * overflow64 \<le> (2::real) powr 1100"
    by (simp add: overflow64_def)
  then have p: "Pow no_lib (Finite 2) (Finite 1100) = PInf"
    by (simp add: Pow_def)
  show ?thesis
    by (simp add: Duration_def p fgt_def fsub_def round64_eighth round64_five_halves
          int64_of_float64_def math_Min_def Let_def)
qed

section \<open>Properties of the base64 encoding\<close>

lemma digits_sum:
  fixes val :: nat
  shows "val div 262144 * 262144 + val div 4096 mod 64 * 4096 + val div 64 mod 64 * 64 + val mod 64 = val"
proof -
  have a: "val = val div 64 * 64 + val mod 64" by simp
  have "val div 64 div 64 = val div (64 * 64)"
    by (rule div_mult2_eq [symmetric])
  then have b: "val div 64 = val div 4096 * 64 + val div 64 mod 64"
    using div_mult_mod_eq [of "val div 64" 64] by simp
  have "val div 4096 div 64 = val div (4096 * 64)"
    by (rule div_mult2_eq [symmetric])
  then have c: "val div 4096 = val div 262144 * 64 + val div 4096 mod 64"
    using div_mult_mod_eq [of "val div 4096" 64] by simp
  have "val div 262144 * 262144 + val div 4096 mod 64 * 4096 + val div 64 mod 64 * 64 + val mod 64
        = ((val div 262144 * 64 + val div 4096 mod 64) * 64 + val div 64 mod 64) * 64 + val mod 64"
    by (simp add: algebra_simps)
  also have "\<dots> = val" using a b c by simp
  finally show ?thesis .
qed

lemma bytes3:
  fixes a b c :: nat
  assumes "a < 256" "b < 256" "c < 256"
  shows "(a * 65536 + b * 256 + c) div 65536 = a"
    and "(a * 65536 + b * 256 + c) div 256 mod 256 = b"
    and "(a * 65536 + b * 256 + c) mod 256 = c"
proof -
  show "(a * 65536 + b * 256 + c) div 65536 = a" using assms by simp
  have "(a * 65536 + b * 256 + c) div 256 = a * 256 + b" using assms by simp
  then show "(a * 65536 + b * 256 + c) div 256 mod 256 = b" using assms by simp
  have "a * 65536 + b * 256 + c = 256 * (a * 256 + b) + c" by simp
  then show "(a * 65536 + b * 256 + c) mod 256 = c"
    using assms by (simp only: mod_mult_self4 mod_less)
qed

lemma digits2:
  fixes a b :: nat
  defines "val \<equiv> a * 65536 + b * 256"
  shows "val div 262144 * 262144 + val div 4096 mod 64 * 4096 + val div 64 mod 64 * 64 = val"
proof -
  have "val = 64 * (a * 1024 + b * 4)" by (simp add: val_def)
  then have "val mod 64 = 0" by (simp only: mod_mult_self1_is_0)
  then show ?thesis using digits_sum [of val] by simp
qed

lemma digits1:
  fixes a :: nat
  defines "val \<equiv> a * 65536"
  shows "val div 262144 * 262144 + val div 4096 mod 64 * 4096 = val"
proof -
  have "val = 64 * (a * 1024)" by (simp add: val_def)
  then have m: "val mod 64 = 0" by (simp only: mod_mult_self1_is_0)
  have "val div 64 = 64 * (a * 16)" by (simp add: val_def)
  then have "val div 64 mod 64 = 0" by (simp only: mod_mult_self1_is_0)
  then show ?thesis using digits_sum [of val] m by simp
qed

lemma digit_bounds:
  fixes val :: nat
  assumes "val < 16777216"
  shows "val div 262144 < 64" "val div 4096 mod 64 < 64" "val div 64 mod 64 < 64" "val mod 64 < 64"
  using assms by simp_all


lemma index_of_nth: "distinct xs \<Longrightarrow> i < length xs \<Longrightarrow> index_of (xs ! i) xs = Some i"
proof (induction xs arbitrary: i)
  case Nil then show ?case by simp
next
  case (Cons y ys)
  then show ?case by (cases i) auto
qed

lemma alphabet_distinct: "distinct (map of_char encodeStd :: byte list)"
  by (simp add: encodeStd_def)

lemma alphabet_length: "length encodeStd = 64"
  by (simp add: encodeStd_def)

lemma b64val_b64char: "s < 64 \<Longrightarrow> b64val (b64char s) = Some s"
  using index_of_nth [OF alphabet_distinct, of s]
  by (simp add: b64val_def b64char_def alphabet_length)

lemma pad_not_in_alphabet: "StdPadding \<notin> set (map of_char encodeStd :: byte list)"
  by (simp add: encodeStd_def StdPadding_def)

lemma b64char_not_pad: "s < 64 \<Longrightarrow> b64char s \<noteq> StdPadding"
  using pad_not_in_alphabet nth_mem [of s "map of_char encodeStd :: byte list"]
  by (auto simp add: b64char_def alphabet_length simp del: set_map)

lemma b64encode_append:
  "length xs mod 3 = 0 \<Longrightarrow> b64encode (xs @ ys) = b64encode xs @ b64encode ys"
  by (induction xs rule: b64encode.induct) (simp_all add: Let_def)

lemma unat_byte: "unat (a :: byte) < 256"
  using unsigned_less [of a] by simp

lemma decode_group3:
  fixes a b c :: byte
  defines "val \<equiv> unat a * 65536 + unat b * 256 + unat c"
  shows "b64decode (b64char (val div 262144) # b64char (val div 4096 mod 64) #
          b64char (val div 64 mod 64) # b64char (val mod 64) # cs)
         = map_option ((@) [a, b, c]) (b64decode cs)"
proof -
  note u = unat_byte [of a] unat_byte [of b] unat_byte [of c]
  have v: "val < 16777216" unfolding val_def using u by simp
  note d = digit_bounds [OF v]
  have "of_nat (val div 65536) = a" "of_nat (val div 256 mod 256) = b" "of_nat (val mod 256) = c"
    unfolding val_def using bytes3 [OF u] by simp_all
  then show ?thesis
    by (simp add: b64val_b64char d b64char_not_pad digits_sum)
qed

lemma decode_group2:
  fixes a b :: byte
  defines "val \<equiv> unat a * 65536 + unat b * 256"
  shows "b64decode [b64char (val div 262144), b64char (val div 4096 mod 64),
          b64char (val div 64 mod 64), StdPadding] = Some [a, b]"
proof -
  note u = unat_byte [of a] unat_byte [of b]
  have v: "val < 16777216" unfolding val_def using u by simp
  note d = digit_bounds [OF v]
  have e: "val div 262144 * 262144 + val div 4096 mod 64 * 4096 + val div 64 mod 64 * 64 = val"
    unfolding val_def by (rule digits2)
  have "of_nat (val div 65536) = a" "of_nat (val div 256 mod 256) = b"
    unfolding val_def using bytes3 (1,2) [OF u, of 0] by simp_all
  then show ?thesis
    by (simp add: b64val_b64char d b64char_not_pad e)
qed

lemma decode_group1:
  fixes a :: byte
  defines "val \<equiv> unat a * 65536"
  shows "b64decode [b64char (val div 262144), b64char (val div 4096 mod 64),
          StdPadding, StdPadding] = Some [a]"
proof -
  note u = unat_byte [of a]
  have v: "val < 16777216" unfolding val_def using u by simp
  note d = digit_bounds [OF v]
  have e: "val div 262144 * 262144 + val div 4096 mod 64 * 4096 = val"
    unfolding val_def by (rule digits1)
  have "of_nat (val div 65536) = a"
    unfolding val_def by simp
  then show ?thesis
    by (simp add: b64val_b64char d e)
qed

lemma b64decode_b64encode: "b64decode (b64encode xs) = Some xs"
proof (induction xs rule: b64encode.induct)
  case (1 a b c rest)
  then show ?case
    using decode_group3 [of a b c "b64encode rest"] by (simp add: Let_def)
next
  case (2 a b)
  then show ?case using decode_group2 [of a b] by (simp add: Let_def)
next
  case (3 a)
  then show ?case using decode_group1 [of a] by (simp add: Let_def)
next
  case 4
  then show ?case by simp
qed


lemma b64_Write_buf:
  assumes "b64_Write p enc w = (res, enc', w')"
  shows "res = (length p, None) \<and>
         (\<exists>pre. length pre mod 3 = 0 \<and> buf w' = buf w @ b64encode pre \<and>
                pre @ pending enc' = pending enc @ p)"
proof -
  define xs where "xs = pending enc @ p"
  define n where "n = length xs - length xs mod 3"
  have "n mod 3 = 0" unfolding n_def by (simp add: mod_eq_0_iff_dvd dvd_minus_mod)
  moreover have "n \<le> length xs" unfolding n_def by simp
  ultimately have len: "length (take n xs) mod 3 = 0" by (simp add: min_def)
  have r: "res = (length p, None)" "pending enc' = drop n xs" "buf w' = buf w @ b64encode (take n xs)"
    using assms by (auto simp: b64_Write_def bw_Write_def Let_def xs_def n_def)
  have "take n xs @ pending enc' = pending enc @ p"
    unfolding r(2) xs_def [symmetric] by (rule append_take_drop_id)
  with r(1,3) len show ?thesis
    by (intro conjI exI [of _ "take n xs"])
qed

lemma b64_Close_buf:
  assumes "b64_Close enc w = (err, enc', w')"
  shows "err = None \<and> buf w' = buf w @ b64encode (pending enc)"
  using assms by (auto simp: b64_Close_def bw_Write_def Let_def split: if_splits)

lemma fw_Writes_binary:
  assumes "base64 w = Some enc" and "fw_Writes ps w e = (ress, w', e')"
  shows "\<exists>enc'. base64 w' = Some enc' \<and>
           buf (writer e') @ b64encode (pending enc') = buf (writer e) @ b64encode (pending enc @ concat ps) \<and>
           ress = map (\<lambda>p. (length p, None)) ps \<and>
           hasNonClosedFrame e' = hasNonClosedFrame e \<and> hasFramesChan e' = hasFramesChan e \<and>
           closed_chan e' = closed_chan e"
  using assms
proof (induction ps arbitrary: w e enc ress)
  case Nil
  then show ?case by auto
next
  case (Cons p ps)
  obtain res enc1 bw where W: "b64_Write p enc (writer e) = (res, enc1, bw)"
    by (cases "b64_Write p enc (writer e)") auto
  let ?w1 = "w\<lparr>base64 := Some enc1\<rparr>" and ?e1 = "e\<lparr>writer := bw\<rparr>"
  have step: "fw_Write p w e = (res, ?w1, ?e1)"
    using Cons.prems(1) W by (simp add: fw_Write_def)
  obtain ress1 where R: "fw_Writes ps ?w1 ?e1 = (ress1, w', e')" and rs: "ress = res # ress1"
    using Cons.prems(2) step by (auto split: prod.splits)
  from Cons.IH [OF _ R, of enc1] obtain enc' where
    I: "base64 w' = Some enc'"
       "buf (writer e') @ b64encode (pending enc') = buf bw @ b64encode (pending enc1 @ concat ps)"
       "ress1 = map (\<lambda>p. (length p, None)) ps"
       "hasNonClosedFrame e' = hasNonClosedFrame e" "hasFramesChan e' = hasFramesChan e"
       "closed_chan e' = closed_chan e"
    by auto
  from b64_Write_buf [OF W] obtain pre where
    B: "res = (length p, None)" "length pre mod 3 = 0" "buf bw = buf (writer e) @ b64encode pre"
       "pre @ pending enc1 = pending enc @ p"
    by (elim conjE exE)
  have "b64encode pre @ b64encode (pending enc1 @ concat ps) = b64encode (pre @ pending enc1 @ concat ps)"
    using b64encode_append [OF B(2)] by simp
  also have "pre @ pending enc1 @ concat ps = pending enc @ concat (p # ps)"
    using B(4) by (metis append.assoc concat.simps(2))
  finally have "buf (writer e') @ b64encode (pending enc') = buf (writer e) @ b64encode (pending enc @ concat (p # ps))"
    using I(2) B(3) by simp
  then show ?case using I B rs by auto
qed

section \<open>Properties of the frame encoder\<close>

lemma range_separator_iff:
  "range_separator b = (if separator \<in> set b then Some ErrSeparatorInTextFrame else None)"
  by (induction b) auto

lemma NextFrame_Text_writer:
  "NextFrame binaryPrefix Text e = (Inr w, e1) \<Longrightarrow> base64 w = None"
  by (auto simp: NextFrame_def CompareAndSwapInt32_def Let_def split: if_splits)

lemma NextFrame_holds_flag:
  "\<not> closed_chan e \<Longrightarrow> NextFrame binaryPrefix ft e = (Inr w, e1) \<Longrightarrow>
   hasNonClosedFrame e1 = 1 \<and> \<not> closed_chan e1"
  by (auto simp: NextFrame_def CompareAndSwapInt32_def bw_WriteByte_def Let_def split: if_splits)

lemma fw_Write_keeps:
  "fw_Write b w e = (res, w', e') \<Longrightarrow>
   hasNonClosedFrame e' = hasNonClosedFrame e \<and> closed_chan e' = closed_chan e \<and>
   hasFramesChan e' = hasFramesChan e"
  by (auto simp: fw_Write_def Let_def split: option.splits prod.splits)

lemma fw_Writes_keeps:
  "fw_Writes bs w e = (ress, w', e') \<Longrightarrow>
   hasNonClosedFrame e' = hasNonClosedFrame e \<and> closed_chan e' = closed_chan e \<and>
   hasFramesChan e' = hasFramesChan e"
proof (induction bs arbitrary: w e ress)
  case Nil
  then show ?case by simp
next
  case (Cons b bs)
  obtain res w1 e1 where s: "fw_Write b w e = (res, w1, e1)"
    by (cases "fw_Write b w e") auto
  obtain ress1 where r: "fw_Writes bs w1 e1 = (ress1, w', e')"
    using Cons.prems s by (auto split: prod.splits)
  show ?case using Cons.IH [OF r] fw_Write_keeps [OF s] by simp
qed

lemma fw_Close_releases:
  "fw_Close w e = (err, w', e') \<Longrightarrow>
   err = None \<and> hasNonClosedFrame e' = 0 \<and> closed_chan e' = closed_chan e"
  by (auto simp: fw_Close_def bw_WriteByte_def b64_Close_def Let_def
      split: option.splits prod.splits if_splits)

text \<open>
  C4. A \<^verbatim>\<open>Write\<close> on the writer of a text frame with bytes that contain the separator
  fails with \<^verbatim>\<open>ErrSeparatorInTextFrame\<close>, reports 0 bytes written, and leaves the encoder,
  and with it the shared buffer, exactly as it was.
\<close>

theorem Write_separator_in_text_frame:
  assumes "NextFrame binaryPrefix Text e0 = (Inr w, e1)" and "separator \<in> set b"
  shows "fw_Write b w e = ((0, Some ErrSeparatorInTextFrame), w, e)"
  using assms NextFrame_Text_writer [OF assms(1)]
  by (simp add: fw_Write_def range_separator_iff)

theorem Write_separator_in_text_frame_witness:
  "NextFrame 0x62 Text (newEncoder 0 25000 False [0x68, 0x69, 0x1e])
     = (Inr \<lparr>base64 = None\<rparr>,
        (newEncoder 0 25000 False [0x68, 0x69, 0x1e])\<lparr>hasNonClosedFrame := 1\<rparr>) \<and>
   separator \<in> set [0x61, 0x1e, 0x62] \<and>
   fw_Write [0x61, 0x1e, 0x62] \<lparr>base64 = None\<rparr>
       ((newEncoder 0 25000 False [0x68, 0x69, 0x1e])\<lparr>hasNonClosedFrame := 1\<rparr>)
     = ((0, Some ErrSeparatorInTextFrame), \<lparr>base64 = None\<rparr>,
        (newEncoder 0 25000 False [0x68, 0x69, 0x1e])\<lparr>hasNonClosedFrame := 1\<rparr>)"
proof -
  have n: "NextFrame 0x62 Text (newEncoder 0 25000 False [0x68, 0x69, 0x1e])
     = (Inr \<lparr>base64 = None\<rparr>,
        (newEncoder 0 25000 False [0x68, 0x69, 0x1e])\<lparr>hasNonClosedFrame := 1\<rparr>)"
    by (simp add: NextFrame_def newEncoder_def CompareAndSwapInt32_def)
  have s: "separator \<in> set [0x61, 0x1e, 0x62]"
    by (simp add: separator_def)
  show ?thesis
    using n s Write_separator_in_text_frame [OF n s] by simp
qed

text \<open>
  C5. \<^verbatim>\<open>NextFrame\<close> returns \<^verbatim>\<open>io.EOF\<close> once the closed channel is closed. Otherwise it fails
  with \<^verbatim>\<open>ErrNonCloseFrame\<close> while the flag of an unclosed writer is set; and on a free
  encoder it returns a writer, a second \<^verbatim>\<open>NextFrame\<close> after any writes on that writer
  fails with \<^verbatim>\<open>ErrNonCloseFrame\<close>, the writer's \<^verbatim>\<open>Close\<close> succeeds, and \<^verbatim>\<open>NextFrame\<close> after
  it returns a writer again.
\<close>

theorem NextFrame_exclusive:
  "(closed_chan e \<longrightarrow> NextFrame binaryPrefix ft e = (Inl EOF, e)) \<and>
   (\<not> closed_chan e \<and> hasNonClosedFrame e \<noteq> 0 \<longrightarrow>
      NextFrame binaryPrefix ft e = (Inl ErrNonCloseFrame, e)) \<and>
   (\<not> closed_chan e \<and> hasNonClosedFrame e = 0 \<longrightarrow>
      (\<exists>w e1 ress w2 e2 w3 e3 w4 e4.
         NextFrame binaryPrefix ft e = (Inr w, e1) \<and>
         fw_Writes bs w e1 = (ress, w2, e2) \<and>
         NextFrame binaryPrefix ft' e2 = (Inl ErrNonCloseFrame, e2) \<and>
         fw_Close w2 e2 = (None, w3, e3) \<and>
         NextFrame binaryPrefix ft'' e3 = (Inr w4, e4)))"
proof (intro conjI impI)
  show "NextFrame binaryPrefix ft e = (Inl EOF, e)" if "closed_chan e"
    using that by (simp add: NextFrame_def)
  show "NextFrame binaryPrefix ft e = (Inl ErrNonCloseFrame, e)"
    if "\<not> closed_chan e \<and> hasNonClosedFrame e \<noteq> 0"
    using that by (simp add: NextFrame_def CompareAndSwapInt32_def)
  show "\<exists>w e1 ress w2 e2 w3 e3 w4 e4.
         NextFrame binaryPrefix ft e = (Inr w, e1) \<and>
         fw_Writes bs w e1 = (ress, w2, e2) \<and>
         NextFrame binaryPrefix ft' e2 = (Inl ErrNonCloseFrame, e2) \<and>
         fw_Close w2 e2 = (None, w3, e3) \<and>
         NextFrame binaryPrefix ft'' e3 = (Inr w4, e4)"
    if free: "\<not> closed_chan e \<and> hasNonClosedFrame e = 0"
  proof -
    obtain w e1 where n: "NextFrame binaryPrefix ft e = (Inr w, e1)"
      using free
      by (cases "ft = Binary")
         (simp_all add: NextFrame_def CompareAndSwapInt32_def bw_WriteByte_def Let_def)
    obtain ress w2 e2 where ws: "fw_Writes bs w e1 = (ress, w2, e2)"
      by (cases "fw_Writes bs w e1") auto
    obtain err w3 e3 where c: "fw_Close w2 e2 = (err, w3, e3)"
      by (cases "fw_Close w2 e2") auto
    have held: "hasNonClosedFrame e2 = 1 \<and> \<not> closed_chan e2"
      using NextFrame_holds_flag [OF _ n] free fw_Writes_keeps [OF ws] by simp
    then have second: "NextFrame binaryPrefix ft' e2 = (Inl ErrNonCloseFrame, e2)"
      by (simp add: NextFrame_def CompareAndSwapInt32_def)
    have released: "err = None \<and> hasNonClosedFrame e3 = 0 \<and> \<not> closed_chan e3"
      using fw_Close_releases [OF c] held by simp
    then obtain w4 e4 where third: "NextFrame binaryPrefix ft'' e3 = (Inr w4, e4)"
      by (cases "ft'' = Binary")
         (simp_all add: NextFrame_def CompareAndSwapInt32_def bw_WriteByte_def Let_def)
    show ?thesis
      using n ws second c released third by blast
  qed
qed

theorem NextFrame_exclusive_witness:
  "NextFrame 0x62 Text (newEncoder 0 25000 True []) = (Inl EOF, newEncoder 0 25000 True []) \<and>
   NextFrame 0x62 Text ((newEncoder 0 25000 False [])\<lparr>hasNonClosedFrame := 1\<rparr>)
     = (Inl ErrNonCloseFrame, (newEncoder 0 25000 False [])\<lparr>hasNonClosedFrame := 1\<rparr>) \<and>
   (\<exists>w e1 ress w2 e2 w3 e3 w4 e4.
      NextFrame 0x62 Text (newEncoder 0 25000 False []) = (Inr w, e1) \<and>
      fw_Writes [[0x61, 0x62, 0x63]] w e1 = (ress, w2, e2) \<and>
      NextFrame 0x62 Binary e2 = (Inl ErrNonCloseFrame, e2) \<and>
      fw_Close w2 e2 = (None, w3, e3) \<and>
      NextFrame 0x62 Binary e3 = (Inr w4, e4))"
  using NextFrame_exclusive [where e = "newEncoder 0 25000 True []" and binaryPrefix = "0x62"
      and ft = Text]
    NextFrame_exclusive [where e = "(newEncoder 0 25000 False [])\<lparr>hasNonClosedFrame := 1\<rparr>"
      and binaryPrefix = "0x62" and ft = Text]
    NextFrame_exclusive [where e = "newEncoder 0 25000 False []" and binaryPrefix = "0x62"
      and ft = Text and bs = "[[0x61, 0x62, 0x63]]" and ft' = Binary and ft'' = Binary]
  by (simp add: newEncoder_def)

text \<open>
  C7. \<^verbatim>\<open>WriteFramesTo\<close> has three outcomes, one for each case of its \<^verbatim>\<open>select\<close>. When a
  token is received from \<^verbatim>\<open>hasFramesChan\<close>, the token is consumed, the whole buffer is
  handed to the output in one \<^verbatim>\<open>Write\<close> call, the buffer is cleared, and the result is
  what that call reports. When the timer of \<open>pingTimeout - (now - lastPing)\<close> fires
  first, \<open>lastPing\<close> becomes the time then read, nothing else changes, and the result is
  \<^verbatim>\<open>ErrPingTimeout\<close>. When the closed channel is closed, the result is \<^verbatim>\<open>io.EOF\<close> and nothing
  changes. There is no other outcome.
\<close>

theorem WriteFramesTo_outcomes:
  "(0 < hasFramesChan e \<longrightarrow>
      WriteFramesTo now RecvHasFrames out e =
        Some (wr_err out,
              e\<lparr>hasFramesChan := hasFramesChan e - 1, writer := (writer e)\<lparr>buf := []\<rparr>\<rparr>,
              out\<lparr>wr_calls := wr_calls out @ [buf (writer e)]\<rparr>)) \<and>
   (now \<le> now' \<and> lastPing e + pingTimeout e \<le> now' \<longrightarrow>
      WriteFramesTo now (TimeAfter now') out e =
        Some (Some ErrPingTimeout, e\<lparr>lastPing := now'\<rparr>, out)) \<and>
   (closed_chan e \<longrightarrow> WriteFramesTo now RecvClosed out e = Some (Some EOF, e, out)) \<and>
   (WriteFramesTo now sel out e = Some (err, e', out') \<longrightarrow>
      sel = RecvHasFrames \<and> 0 < hasFramesChan e \<and> err = wr_err out \<and>
        e' = e\<lparr>hasFramesChan := hasFramesChan e - 1, writer := (writer e)\<lparr>buf := []\<rparr>\<rparr> \<and>
        out' = out\<lparr>wr_calls := wr_calls out @ [buf (writer e)]\<rparr>
      \<or> sel = TimeAfter (lastPing e') \<and> now \<le> lastPing e' \<and>
        lastPing e + pingTimeout e \<le> lastPing e' \<and>
        err = Some ErrPingTimeout \<and> e' = e\<lparr>lastPing := lastPing e'\<rparr> \<and> out' = out
      \<or> sel = RecvClosed \<and> closed_chan e \<and> err = Some EOF \<and> e' = e \<and> out' = out)"
proof (intro conjI impI)
  show "WriteFramesTo now RecvHasFrames out e =
        Some (wr_err out,
              e\<lparr>hasFramesChan := hasFramesChan e - 1, writer := (writer e)\<lparr>buf := []\<rparr>\<rparr>,
              out\<lparr>wr_calls := wr_calls out @ [buf (writer e)]\<rparr>)"
    if "0 < hasFramesChan e"
    using that
    by (simp add: WriteFramesTo_def bw_WriteFinishedFrames_def io_Write_def Let_def
          split: option.splits)
  show "WriteFramesTo now (TimeAfter now') out e =
        Some (Some ErrPingTimeout, e\<lparr>lastPing := now'\<rparr>, out)"
    if "now \<le> now' \<and> lastPing e + pingTimeout e \<le> now'"
    using that by (simp add: WriteFramesTo_def)
  show "WriteFramesTo now RecvClosed out e = Some (Some EOF, e, out)" if "closed_chan e"
    using that by (simp add: WriteFramesTo_def)
  show "sel = RecvHasFrames \<and> 0 < hasFramesChan e \<and> err = wr_err out \<and>
        e' = e\<lparr>hasFramesChan := hasFramesChan e - 1, writer := (writer e)\<lparr>buf := []\<rparr>\<rparr> \<and>
        out' = out\<lparr>wr_calls := wr_calls out @ [buf (writer e)]\<rparr>
      \<or> sel = TimeAfter (lastPing e') \<and> now \<le> lastPing e' \<and>
        lastPing e + pingTimeout e \<le> lastPing e' \<and>
        err = Some ErrPingTimeout \<and> e' = e\<lparr>lastPing := lastPing e'\<rparr> \<and> out' = out
      \<or> sel = RecvClosed \<and> closed_chan e \<and> err = Some EOF \<and> e' = e \<and> out' = out"
    if "WriteFramesTo now sel out e = Some (err, e', out')"
    using that
    by (cases sel)
       (auto simp: WriteFramesTo_def bw_WriteFinishedFrames_def io_Write_def Let_def
             split: option.splits if_splits)
qed

theorem WriteFramesTo_outcomes_witness:
  "WriteFramesTo 1000 RecvHasFrames \<lparr>wr_calls = [], wr_err = None\<rparr>
       ((newEncoder 0 25000 True [0x61, 0x62, 0x63, 0x1e])\<lparr>hasFramesChan := 1\<rparr>)
     = Some (None, newEncoder 0 25000 True [], \<lparr>wr_calls = [[0x61, 0x62, 0x63, 0x1e]], wr_err = None\<rparr>) \<and>
   WriteFramesTo 1000 (TimeAfter 25000) \<lparr>wr_calls = [], wr_err = None\<rparr>
       ((newEncoder 0 25000 True [0x61, 0x62, 0x63, 0x1e])\<lparr>hasFramesChan := 1\<rparr>)
     = Some (Some ErrPingTimeout,
             (newEncoder 25000 25000 True [0x61, 0x62, 0x63, 0x1e])\<lparr>hasFramesChan := 1\<rparr>,
             \<lparr>wr_calls = [], wr_err = None\<rparr>) \<and>
   WriteFramesTo 1000 RecvClosed \<lparr>wr_calls = [], wr_err = None\<rparr>
       ((newEncoder 0 25000 True [0x61, 0x62, 0x63, 0x1e])\<lparr>hasFramesChan := 1\<rparr>)
     = Some (Some EOF, (newEncoder 0 25000 True [0x61, 0x62, 0x63, 0x1e])\<lparr>hasFramesChan := 1\<rparr>,
             \<lparr>wr_calls = [], wr_err = None\<rparr>)"
  using WriteFramesTo_outcomes [where now = 1000 and now' = 25000
      and e = "(newEncoder 0 25000 True [0x61, 0x62, 0x63, 0x1e])\<lparr>hasFramesChan := 1\<rparr>"
      and out = "\<lparr>wr_calls = [], wr_err = None\<rparr>"]
  by (simp add: newEncoder_def newBufWriter_def)

text \<open>
  C10. \<^verbatim>\<open>WriteByte\<close> on the writer of a text frame appends its byte to the shared buffer
  and reports no error, whatever the byte is, while \<^verbatim>\<open>Write\<close> of the separator alone is
  refused. A text frame written as the single byte \<^verbatim>\<open>0x1e\<close> through \<^verbatim>\<open>WriteByte\<close> and then
  closed therefore adds two separator bytes to the buffer.
\<close>

theorem WriteByte_unchecked:
  assumes "NextFrame binaryPrefix Text e0 = (Inr w, e)"
  shows "fw_WriteByte b w e = (None, w, e\<lparr>writer := (writer e)\<lparr>buf := buf (writer e) @ [b]\<rparr>\<rparr>) \<and>
         fw_Write [separator] w e = ((0, Some ErrSeparatorInTextFrame), w, e) \<and>
         (\<exists>w' e'. fw_Close w (snd (snd (fw_WriteByte separator w e))) = (None, w', e') \<and>
                  buf (writer e') = buf (writer e0) @ [separator, separator])"
proof -
  have t: "base64 w = None"
    using NextFrame_Text_writer [OF assms] .
  have b: "buf (writer e) = buf (writer e0)"
    using assms
    by (auto simp: NextFrame_def CompareAndSwapInt32_def Let_def split: if_splits)
  show ?thesis
    using t b
    by (simp add: fw_WriteByte_def bw_WriteByte_def fw_Write_def fw_Close_def Let_def)
qed

theorem WriteByte_unchecked_witness:
  "NextFrame 0x62 Text (newEncoder 0 25000 False [])
     = (Inr \<lparr>base64 = None\<rparr>, (newEncoder 0 25000 False [])\<lparr>hasNonClosedFrame := 1\<rparr>) \<and>
   fw_WriteByte 0x1e \<lparr>base64 = None\<rparr> ((newEncoder 0 25000 False [])\<lparr>hasNonClosedFrame := 1\<rparr>)
     = (None, \<lparr>base64 = None\<rparr>, (newEncoder 0 25000 False [0x1e])\<lparr>hasNonClosedFrame := 1\<rparr>) \<and>
   fw_Close \<lparr>base64 = None\<rparr> ((newEncoder 0 25000 False [0x1e])\<lparr>hasNonClosedFrame := 1\<rparr>)
     = (None, \<lparr>base64 = None\<rparr>, (newEncoder 0 25000 False [0x1e, 0x1e])\<lparr>hasFramesChan := 1\<rparr>)"
proof -
  have n: "NextFrame 0x62 Text (newEncoder 0 25000 False [])
     = (Inr \<lparr>base64 = None\<rparr>, (newEncoder 0 25000 False [])\<lparr>hasNonClosedFrame := 1\<rparr>)"
    by (simp add: NextFrame_def newEncoder_def CompareAndSwapInt32_def)
  show ?thesis
    using n WriteByte_unchecked [OF n, where b = "0x1e"]
    by (simp add: newEncoder_def newBufWriter_def fw_WriteByte_def bw_WriteByte_def fw_Close_def
          separator_def Let_def)
qed

text \<open>
  C6. On a free encoder, opening a binary frame, writing any sequence of byte slices
  through the writer and closing it appends to the buffer exactly the binary prefix,
  the base64 encoding of the concatenated slices, and the separator; decoding the
  base64 part gives the payload back.
\<close>

theorem binary_frame_bytes:
  assumes "\<not> closed_chan e" and "hasNonClosedFrame e = 0"
  shows "\<exists>w e1 ress w2 e2 w3 e3.
           NextFrame binaryPrefix Binary e = (Inr w, e1) \<and>
           fw_Writes ps w e1 = (ress, w2, e2) \<and>
           fw_Close w2 e2 = (None, w3, e3) \<and>
           buf (writer e3) = buf (writer e) @ [binaryPrefix] @ b64encode (concat ps) @ [separator] \<and>
           b64decode (b64encode (concat ps)) = Some (concat ps)"
proof -
  let ?w = "\<lparr>base64 = Some NewEncoder\<rparr>"
  let ?e1 = "e\<lparr>hasNonClosedFrame := 1, writer := (writer e)\<lparr>buf := buf (writer e) @ [binaryPrefix]\<rparr>\<rparr>"
  have N: "NextFrame binaryPrefix Binary e = (Inr ?w, ?e1)"
    using assms by (simp add: NextFrame_def CompareAndSwapInt32_def bw_WriteByte_def Let_def)
  obtain ress w2 e2 where Ws: "fw_Writes ps ?w ?e1 = (ress, w2, e2)"
    by (cases "fw_Writes ps ?w ?e1") auto
  from fw_Writes_binary [OF _ Ws, of NewEncoder] obtain enc2 where
    I: "base64 w2 = Some enc2"
       "buf (writer e2) @ b64encode (pending enc2) = buf (writer e) @ [binaryPrefix] @ b64encode (concat ps)"
    by (auto simp: NewEncoder_def)
  obtain err w3 e3 where C: "fw_Close w2 e2 = (err, w3, e3)"
    by (cases "fw_Close w2 e2") auto
  obtain cerr enc3 bw where BC: "b64_Close enc2 (writer e2) = (cerr, enc3, bw)"
    by (cases "b64_Close enc2 (writer e2)") auto
  from b64_Close_buf [OF BC] have bwb: "buf bw = buf (writer e2) @ b64encode (pending enc2)" by simp
  have "err = None \<and> buf (writer e3) = buf bw @ [separator]"
    using C I(1) BC by (auto simp: fw_Close_def bw_WriteByte_def Let_def split: if_splits)
  then show ?thesis using N Ws C bwb I(2) b64decode_b64encode by auto
qed

theorem binary_frame_bytes_witness:
  "\<not> closed_chan (newEncoder 0 25000 False []) \<and>
   hasNonClosedFrame (newEncoder 0 25000 False []) = 0 \<and>
   b64encode (concat [[0x66], [0x6f, 0x6f]]) = [0x5a, 0x6d, 0x39, 0x76] \<and>
   (\<exists>w e1 ress w2 e2 w3 e3.
      NextFrame 0x62 Binary (newEncoder 0 25000 False []) = (Inr w, e1) \<and>
      fw_Writes [[0x66], [0x6f, 0x6f]] w e1 = (ress, w2, e2) \<and>
      fw_Close w2 e2 = (None, w3, e3) \<and>
      buf (writer e3) = [0x62, 0x5a, 0x6d, 0x39, 0x76, 0x1e] \<and>
      b64decode [0x5a, 0x6d, 0x39, 0x76] = Some [0x66, 0x6f, 0x6f])"
proof -
  have enc: "b64encode (concat [[0x66], [0x6f, 0x6f]]) = [0x5a, 0x6d, 0x39, 0x76]"
    by (simp add: b64char_def encodeStd_def)
  show ?thesis
    using binary_frame_bytes [where e = "newEncoder 0 25000 False []" and binaryPrefix = "0x62"
        and ps = "[[0x66], [0x6f, 0x6f]]"]
    unfolding enc
    by (simp add: newEncoder_def newBufWriter_def separator_def)
qed

section \<open>Properties of the client\<close>

lemma no_conn_close_refl: "no_conn_close w w"
  by (simp add: no_conn_close_def)

lemma no_conn_close_iff:
  "no_conn_close w w' \<longleftrightarrow> (\<exists>evs. trace w' = trace w @ evs \<and> filter is_ConnClose evs = [])"
proof
  assume "no_conn_close w w'"
  then have "trace w' = trace w @ drop (length (trace w)) (trace w')"
    and "filter is_ConnClose (drop (length (trace w)) (trace w')) = []"
    unfolding no_conn_close_def by (metis append_take_drop_id, simp)
  then show "\<exists>evs. trace w' = trace w @ evs \<and> filter is_ConnClose evs = []" by blast
next
  assume "\<exists>evs. trace w' = trace w @ evs \<and> filter is_ConnClose evs = []"
  then show "no_conn_close w w'" by (auto simp: no_conn_close_def)
qed

lemma no_conn_close_trans:
  "no_conn_close w w1 \<Longrightarrow> no_conn_close w1 w2 \<Longrightarrow> no_conn_close w w2"
  unfolding no_conn_close_iff by auto

lemma no_conn_close_step:
  "\<not> is_ConnClose x \<Longrightarrow> trace w1 = trace w @ [x] \<Longrightarrow> no_conn_close w w1"
  unfolding no_conn_close_iff by auto

lemma connectClient_trace:
  "connectClient ev g c w = (r, w') \<Longrightarrow> no_conn_close w w'"
  by (auto simp: connectClient_def no_conn_close_refl split: option.splits
           intro: no_conn_close_step [where x = "EncodeConnect g"])

lemma stays_open_Some:
  "(reconnection c \<Longrightarrow> reconnection c' \<and> no_conn_close w w') \<Longrightarrow> stays_open c w (Some (r, c', w'))"
  by (simp add: stays_open_def)

lemma stays_open_from:
  "stays_open c1 w1 res \<Longrightarrow> reconnection c1 = reconnection c \<Longrightarrow> no_conn_close w w1 \<Longrightarrow>
   stays_open c w res"
  by (auto simp: stays_open_def intro: no_conn_close_trans split: option.splits)

lemma stays_open_SomeD:
  "stays_open c w (Some (r, c', w')) \<Longrightarrow> reconnection c \<Longrightarrow> reconnection c' \<and> no_conn_close w w'"
  by (simp add: stays_open_def)

lemma reconnect_Suc_stays_open:
  assumes IH: "\<And>d c w. stays_open c w (reconnect_loop n ev d (c, w))"
  shows "stays_open c w (reconnect (Suc n) ev (c, w))"
proof -
  obtain delay b where
    D: "Duration (pow_lib ev) (rand_Float64 ev (draws w)) (retryStrategy c) = (delay, b)"
    by force
  have L: "stays_open c w (reconnect_loop n ev delay (c\<lparr>retryStrategy := b, reconnecting := True\<rparr>, w1))"
    if "trace w1 = trace w" for w1
    by (rule stays_open_from [OF IH]) (simp_all add: no_conn_close_def that)
  show ?thesis
    using D L [of w] L [of "w\<lparr>draws := draws w + 1\<rparr>"]
    by (simp add: stays_open_Some no_conn_close_refl)
qed

lemma reconnect_loop_Suc_stays_open:
  assumes IHl: "\<And>c w. stays_open c w (reconnect_loop n ev d (c, w))"
    and IHc: "\<And>c w. stays_open c w (Connect n ev (c, w))"
  shows "stays_open c w (reconnect_loop (Suc n) ev d (c, w))"
proof -
  let ?w1 = "w\<lparr>trace := trace w @ [Sleep (time_Duration d)]\<rparr>"
  have s: "no_conn_close w ?w1"
    by (rule no_conn_close_step [where x = "Sleep (time_Duration d)"]) simp_all
  show ?thesis
  proof (cases "Connect n ev (c, ?w1)")
    case None
    then show ?thesis by (simp add: stays_open_def)
  next
    case (Some res)
    obtain r c2 w2 where res: "res = (r, c2, w2)" by (cases res) auto
    have C: "stays_open c w (Some (r, c2, w2))"
      using stays_open_from [OF IHc [of c ?w1] _ s] Some res by simp
    show ?thesis
    proof (cases r)
      case Panics
      then show ?thesis using Some res C by simp
    next
      case (Returns err)
      show ?thesis
      proof (cases err)
        case None
        then show ?thesis
          using Some res Returns stays_open_SomeD [OF C]
          by (simp add: stays_open_Some)
      next
        case (Some e)
        have "stays_open c w (reconnect_loop n ev d (c2\<lparr>reconnecting := False\<rparr>, w2))"
          unfolding stays_open_def
        proof
          assume rc: "reconnection c"
          from stays_open_SomeD [OF C rc] have k: "reconnection c2" "no_conn_close w w2" by simp_all
          from stays_open_from [OF IHl [of "c2\<lparr>reconnecting := False\<rparr>" w2], of c w] k rc
          show "case reconnect_loop n ev d (c2\<lparr>reconnecting := False\<rparr>, w2) of None \<Rightarrow> True
                | Some (r, c', w') \<Rightarrow> reconnection c' \<and> no_conn_close w w'"
            by (simp add: stays_open_def)
        qed
        then show ?thesis
          using \<open>Connect n ev (c, ?w1) = Some res\<close> res Returns Some by simp
      qed
    qed
  qed
qed

lemma Close_Suc_stays_open:
  assumes IH: "\<And>c w. stays_open c w (reconnect n ev (c, w))"
  shows "stays_open c w (Close (Suc n) ev (c, w))"
proof (cases "reconnection c")
  case True
  then show ?thesis
    using stays_open_from [OF IH [of "c\<lparr>retryStrategy := Reset (retryStrategy c), reconnecting := False\<rparr>" w], of c w]
    by (simp add: no_conn_close_refl)
next
  case False
  then show ?thesis by (simp add: stays_open_def)
qed

lemma Connect_Suc_stays_open:
  assumes IH: "\<And>c w. stays_open c w (Close n ev (c, w))"
  shows "stays_open c w (Connect (Suc n) ev (c, w))"
proof -
  let ?g = "dials w"
  let ?w1 = "w\<lparr>trace := trace w @ [Dial], dials := dials w + 1\<rparr>"
  let ?c1 = "c\<lparr>conn := Some ?g\<rparr>"
  have s: "no_conn_close w ?w1"
    by (rule no_conn_close_step [where x = Dial]) simp_all
  show ?thesis
  proof (cases "dial_result ev ?g")
    case (Some err)
    then show ?thesis using s by (simp add: stays_open_Some Let_def)
  next
    case None
    obtain cerr w2 where cc: "connectClient ev ?g ?c1 ?w1 = (cerr, w2)"
      by force
    have s2: "no_conn_close w w2"
      using no_conn_close_trans [OF s connectClient_trace [OF cc]] .
    show ?thesis
    proof (cases cerr)
      case None
      have "no_conn_close w (w2\<lparr>trace := trace w2 @ [GoClientTasks]\<rparr>)"
        by (rule no_conn_close_trans [OF s2]) (rule no_conn_close_step [where x = GoClientTasks], simp_all)
      then show ?thesis
        using \<open>dial_result ev ?g = None\<close> cc None by (simp add: stays_open_Some Let_def)
    next
      case (Some err)
      have X: "stays_open c w (Close n ev (?c1, w2))"
        using stays_open_from [OF IH [of ?c1 w2], of c w] s2 by simp
      show ?thesis
      proof (cases "Close n ev (?c1, w2)")
        case None
        then show ?thesis
          using \<open>dial_result ev ?g = None\<close> cc Some by (simp add: stays_open_def Let_def)
      next
        case (Some res)
        obtain r c3 w3 where res: "res = (r, c3, w3)" by (cases res) auto
        have k: "reconnection c \<Longrightarrow> reconnection c3 \<and> no_conn_close w w3"
          using stays_open_SomeD X Some res by simp
        have "no_conn_close w3 (w3\<lparr>trace := trace w3 @ [RootOnError err]\<rparr>)"
          by (rule no_conn_close_step [where x = "RootOnError err"]) simp_all
        then have k': "reconnection c \<Longrightarrow> no_conn_close w (w3\<lparr>trace := trace w3 @ [RootOnError err]\<rparr>)"
          using k no_conn_close_trans by blast
        show ?thesis
          using \<open>dial_result ev ?g = None\<close> cc \<open>cerr = Some err\<close> Some res k k'
          by (cases r) (simp_all add: stays_open_Some Let_def)
      qed
    qed
  qed
qed

lemma calls_stay_open:
  "stays_open c w (reconnect n ev (c, w)) \<and> stays_open c w (reconnect_loop n ev d (c, w)) \<and>
   stays_open c w (Connect n ev (c, w)) \<and> stays_open c w (Close n ev (c, w))"
proof (induction n arbitrary: c w d)
  case 0
  show ?case by (simp add: stays_open_def)
next
  case (Suc n)
  show ?case
    using Suc.IH
    by (intro conjI reconnect_Suc_stays_open reconnect_loop_Suc_stays_open
          Close_Suc_stays_open Connect_Suc_stays_open) blast+
qed

text \<open>
  C8. When no reconnection is in flight and the counter of the backoff has reached
  \<^verbatim>\<open>reconnectionAttempts\<close>, \<^verbatim>\<open>reconnect\<close> returns the error at once: the counter is back at
  0, the in-flight flag is clear, and the world is untouched (no sleep, no dial, no
  random draw).
\<close>

theorem reconnect_attempts_exhausted:
  assumes "\<not> reconnecting c"
    and "fge (rs_attempts (retryStrategy c)) (reconnectionAttempts c)"
  shows "reconnect (Suc n) ev (c, w) =
           Some (Returns (Some (ErrorsNew
                   ''reconnect failed: reconnect times more than reconnect attempts'')),
                 c\<lparr>retryStrategy := (retryStrategy c)\<lparr>rs_attempts := Finite 0\<rparr>,
                   reconnecting := False\<rparr>,
                 w)"
  using assms by (simp add: Reset_def)

theorem reconnect_attempts_exhausted_witness:
  "\<not> reconnecting (NewClient\<lparr>reconnectionAttempts := Finite 5,
        retryStrategy := (retryStrategy NewClient)\<lparr>rs_attempts := Finite 5\<rparr>\<rparr>) \<and>
   fge (Finite 5) (Finite 5) \<and>
   reconnect (Suc 0) env_accepting (NewClient\<lparr>reconnectionAttempts := Finite 5,
        retryStrategy := (retryStrategy NewClient)\<lparr>rs_attempts := Finite 5\<rparr>\<rparr>, world0) =
     Some (Returns (Some (ErrorsNew
             ''reconnect failed: reconnect times more than reconnect attempts'')),
           NewClient\<lparr>reconnectionAttempts := Finite 5\<rparr>, world0)"
  using reconnect_attempts_exhausted [of "NewClient\<lparr>reconnectionAttempts := Finite 5,
        retryStrategy := (retryStrategy NewClient)\<lparr>rs_attempts := Finite 5\<rparr>\<rparr>" 0 env_accepting world0]
  by (simp add: NewClient_def NewBackOff_def fge_def)

text \<open>
  C9. With reconnection enabled, \<^verbatim>\<open>Close\<close> is \<^verbatim>\<open>reconnect\<close> run on the client with the
  counter at 0 and the in-flight flag clear, and whatever that run does, it closes no
  connection. With reconnection disabled, \<^verbatim>\<open>Close\<close> closes the connection (and panics
  when there is none).
\<close>

theorem Close_reconnects_instead:
  "(reconnection c \<longrightarrow>
      Close (Suc n) ev (c, w) =
        reconnect n ev (c\<lparr>retryStrategy := (retryStrategy c)\<lparr>rs_attempts := Finite 0\<rparr>,
                         reconnecting := False\<rparr>, w) \<and>
      (\<forall>r c' w'. Close (Suc n) ev (c, w) = Some (r, c', w') \<longrightarrow> no_conn_close w w')) \<and>
   (\<not> reconnection c \<longrightarrow>
      Close (Suc n) ev (c, w) =
        (case conn c of
           None \<Rightarrow> Some (Panics, c, w)
         | Some g \<Rightarrow> Some (Returns (close_result ev g), c, w\<lparr>trace := trace w @ [ConnClose g]\<rparr>)))"
proof -
  have "stays_open c w (Close (Suc n) ev (c, w))"
    using calls_stay_open by blast
  then have "no_conn_close w w'"
    if "reconnection c" and "Close (Suc n) ev (c, w) = Some (r, c', w')" for r c' w'
    using that stays_open_SomeD by metis
  then show ?thesis
    by (auto simp: Reset_def)
qed

theorem Close_reconnects_instead_witness:
  "reconnection (NewClient\<lparr>rootHandler := Some False\<rparr>) \<and>
   Close (Suc (Suc (Suc (Suc 0)))) env_accepting (NewClient\<lparr>rootHandler := Some False\<rparr>, world0) =
     Some (Returns None, NewClient\<lparr>rootHandler := Some False, conn := Some 0\<rparr>,
           \<lparr>trace = [Sleep 2625000000, Dial, EncodeConnect 0, GoClientTasks], dials = 1, draws = 1\<rparr>) \<and>
   \<not> reconnection (NewClient\<lparr>reconnection := False, conn := Some 0\<rparr>) \<and>
   Close (Suc 0) env_accepting (NewClient\<lparr>reconnection := False, conn := Some 0\<rparr>, world0) =
     Some (Returns None, NewClient\<lparr>reconnection := False, conn := Some 0\<rparr>,
           \<lparr>trace = [ConnClose 0], dials = 0, draws = 0\<rparr>)"
  using Close_reconnects_instead [of "NewClient\<lparr>rootHandler := Some False\<rparr>" "Suc (Suc (Suc 0))" env_accepting world0]
    Close_reconnects_instead [of "NewClient\<lparr>reconnection := False, conn := Some 0\<rparr>" 0 env_accepting world0]
  by (simp add: NewClient_def NewBackOff_def env_accepting_def world0_def Duration_NewClient
        fge_def fgt_def Reset_def connectClient_def time_Duration_def int64_of_float64_def Let_def)

lemma Connect_dial_fails:
  "dial_result ev (dials w) = Some err \<Longrightarrow>
   Connect (Suc n) ev (c, w) =
     Some (Returns (Some err), c, w\<lparr>trace := trace w @ [Dial], dials := dials w + 1\<rparr>)"
  by (simp add: Let_def)

lemma Connect_succeeds:
  "dial_result ev (dials w) = None \<Longrightarrow> rootHandler c = Some h \<Longrightarrow>
   encode_result ev (dials w) = None \<Longrightarrow>
   Connect (Suc n) ev (c, w) =
     Some (Returns None, c\<lparr>conn := Some (dials w)\<rparr>,
           w\<lparr>trace := trace w @ [Dial, EncodeConnect (dials w), GoClientTasks],
             dials := dials w + 1\<rparr>)"
  by (simp add: Let_def connectClient_def)

lemma reconnect_loop_retries:
  assumes "\<forall>i<k. dial_result ev (dials w + i) \<noteq> None"
    and "dial_result ev (dials w + k) = None"
    and "rootHandler c = Some h"
    and "encode_result ev (dials w + k) = None"
  shows "reconnect_loop (Suc (Suc (k + n))) ev delay (c, w) =
           Some (Returns None,
                 c\<lparr>conn := Some (dials w + k), retryStrategy := Reset (retryStrategy c),
                   reconnecting := False\<rparr>,
                 w\<lparr>trace := trace w @ concat (replicate k [Sleep (time_Duration delay), Dial]) @
                              [Sleep (time_Duration delay), Dial, EncodeConnect (dials w + k),
                               GoClientTasks],
                   dials := dials w + k + 1\<rparr>)"
  using assms
proof (induction k arbitrary: c w)
  case 0
  let ?w1 = "w\<lparr>trace := trace w @ [Sleep (time_Duration delay)]\<rparr>"
  have "Connect (Suc n) ev (c, ?w1) =
          Some (Returns None, c\<lparr>conn := Some (dials ?w1)\<rparr>,
                ?w1\<lparr>trace := trace ?w1 @ [Dial, EncodeConnect (dials ?w1), GoClientTasks],
                     dials := dials ?w1 + 1\<rparr>)"
    by (rule Connect_succeeds [where h = h]) (use 0 in simp_all)
  then show ?case by simp
next
  case (Suc k)
  let ?w1 = "w\<lparr>trace := trace w @ [Sleep (time_Duration delay)]\<rparr>"
  let ?w2 = "?w1\<lparr>trace := trace ?w1 @ [Dial], dials := dials ?w1 + 1\<rparr>"
  let ?c2 = "c\<lparr>reconnecting := False\<rparr>"
  obtain err where e: "dial_result ev (dials ?w1) = Some err"
    using Suc.prems(1) by (cases "dial_result ev (dials w)") auto
  have C: "Connect (Suc (Suc (k + n))) ev (c, ?w1) = Some (Returns (Some err), c, ?w2)"
    by (rule Connect_dial_fails [OF e])
  have "reconnect_loop (Suc (Suc (k + n))) ev delay (?c2, ?w2) =
          Some (Returns None,
                 ?c2\<lparr>conn := Some (dials ?w2 + k), retryStrategy := Reset (retryStrategy ?c2),
                   reconnecting := False\<rparr>,
                 ?w2\<lparr>trace := trace ?w2 @ concat (replicate k [Sleep (time_Duration delay), Dial]) @
                              [Sleep (time_Duration delay), Dial, EncodeConnect (dials ?w2 + k),
                               GoClientTasks],
                   dials := dials ?w2 + k + 1\<rparr>)"
  proof (rule Suc.IH)
    show "\<forall>i<k. dial_result ev (dials ?w2 + i) \<noteq> None"
      using Suc.prems(1) by (auto dest: spec [where x = "Suc i" for i])
  qed (use Suc.prems in simp_all)
  then show ?case
    using C by simp
qed

lemma reconnect_loop_never_returns:
  assumes "\<forall>i. dial_result ev i \<noteq> None"
  shows "reconnect_loop n ev delay (c, w) = None"
proof (induction n arbitrary: c w)
  case 0
  show ?case by simp
next
  case (Suc n)
  let ?w1 = "w\<lparr>trace := trace w @ [Sleep (time_Duration delay)]\<rparr>"
  show ?case
  proof (cases n)
    case 0
    then show ?thesis by simp
  next
    case (Suc m)
    have "dial_result ev (dials ?w1) \<noteq> None"
      using assms by blast
    then obtain err where "dial_result ev (dials ?w1) = Some err"
      by blast
    then have "Connect (Suc m) ev (c, ?w1) =
                 Some (Returns (Some err), c, ?w1\<lparr>trace := trace ?w1 @ [Dial], dials := dials ?w1 + 1\<rparr>)"
      by (rule Connect_dial_fails)
    then show ?thesis
      using Suc Suc.IH by simp
  qed
qed

text \<open>
  C2, as the code has it. An invocation of \<^verbatim>\<open>reconnect\<close> that passes the in-flight guard
  and the budget check computes one delay and then loops: it sleeps for that delay and
  calls \<^verbatim>\<open>Connect\<close>; after a failed \<^verbatim>\<open>Connect\<close> it clears the in-flight flag and goes round
  again. When the first \<open>k\<close> dials fail and the next \<^verbatim>\<open>Connect\<close> succeeds, the one
  invocation sleeps \<open>k + 1\<close> times for the same delay, calls \<^verbatim>\<open>Connect\<close> \<open>k + 1\<close> times
  and returns \<^verbatim>\<open>nil\<close> with the counter at 0 and the flag clear.
\<close>

theorem reconnect_retries_until_connected:
  assumes "\<not> reconnecting c"
    and "\<not> fge (rs_attempts (retryStrategy c)) (reconnectionAttempts c)"
    and "\<forall>i<k. dial_result ev (dials w + i) \<noteq> None"
    and "dial_result ev (dials w + k) = None"
    and "rootHandler c = Some h"
    and "encode_result ev (dials w + k) = None"
    and "delay = time_Duration
                   (fst (Duration (pow_lib ev) (rand_Float64 ev (draws w)) (retryStrategy c)))"
  shows "reconnect (Suc (Suc (Suc (k + n)))) ev (c, w) =
           Some (Returns None,
                 c\<lparr>conn := Some (dials w + k),
                   retryStrategy := (retryStrategy c)\<lparr>rs_attempts := Finite 0\<rparr>,
                   reconnecting := False\<rparr>,
                 w\<lparr>trace := trace w @ concat (replicate k [Sleep delay, Dial]) @
                              [Sleep delay, Dial, EncodeConnect (dials w + k), GoClientTasks],
                   dials := dials w + k + 1,
                   draws := (if fgt (rs_jitter (retryStrategy c)) (Finite 0)
                             then draws w + 1 else draws w)\<rparr>)"
proof -
  obtain d b where
    D: "Duration (pow_lib ev) (rand_Float64 ev (draws w)) (retryStrategy c) = (d, b)"
    by force
  then have b: "b = (retryStrategy c)\<lparr>rs_attempts := fadd (rs_attempts (retryStrategy c)) (Finite 1)\<rparr>"
    by (auto simp: Duration_def Let_def)
  let ?c1 = "c\<lparr>retryStrategy := b, reconnecting := True\<rparr>"
  have L: "reconnect_loop (Suc (Suc (k + n))) ev d (?c1, w1) =
           Some (Returns None,
                 ?c1\<lparr>conn := Some (dials w1 + k), retryStrategy := Reset (retryStrategy ?c1),
                   reconnecting := False\<rparr>,
                 w1\<lparr>trace := trace w1 @ concat (replicate k [Sleep (time_Duration d), Dial]) @
                              [Sleep (time_Duration d), Dial, EncodeConnect (dials w1 + k),
                               GoClientTasks],
                   dials := dials w1 + k + 1\<rparr>)"
    if "dials w1 = dials w" for w1
    by (rule reconnect_loop_retries [where h = h]) (use assms that in simp_all)
  show ?thesis
    using assms(1,2,7) D L [of w] L [of "w\<lparr>draws := draws w + 1\<rparr>"]
    by (simp add: b Reset_def)
qed

theorem reconnect_retries_until_connected_witness:
  "reconnect (Suc (Suc (Suc (Suc 0)))) env_refused_once (NewClient\<lparr>rootHandler := Some False\<rparr>, world0) =
     Some (Returns None, NewClient\<lparr>rootHandler := Some False, conn := Some 1\<rparr>,
           \<lparr>trace = [Sleep 2625000000, Dial, Sleep 2625000000, Dial, EncodeConnect 1, GoClientTasks],
            dials = 2, draws = 1\<rparr>)"
  using reconnect_retries_until_connected [of "NewClient\<lparr>rootHandler := Some False\<rparr>" "Suc 0"
      env_refused_once world0 False 2625000000 0]
  by (simp add: NewClient_def NewBackOff_def env_accepting_def env_refused_once_def world0_def
        Duration_NewClient fge_def fgt_def time_Duration_def int64_of_float64_def Let_def)

text \<open>
  C2, as the claim states it, fails: with the first dial refused and the second
  accepted, one invocation of \<^verbatim>\<open>reconnect\<close> does not return after the failure but
  sleeps and dials a second time.
\<close>

theorem reconnect_single_retry_counterexample:
  "dial_result env_refused_once 0 = Some (External ''connection refused'') \<and>
   reconnect (Suc (Suc (Suc (Suc 0)))) env_refused_once
       (NewClient\<lparr>rootHandler := Some False\<rparr>, world0) =
     Some (Returns None, NewClient\<lparr>rootHandler := Some False, conn := Some 1\<rparr>,
           \<lparr>trace = [Sleep 2625000000, Dial, Sleep 2625000000, Dial, EncodeConnect 1,
                     GoClientTasks],
            dials = 2, draws = 1\<rparr>) \<and>
   count_list [Sleep 2625000000, Dial, Sleep 2625000000, Dial, EncodeConnect 1, GoClientTasks]
     Dial = 2"
  by (simp add: NewClient_def NewBackOff_def env_accepting_def env_refused_once_def world0_def
        Duration_NewClient fge_def fgt_def Reset_def connectClient_def time_Duration_def
        int64_of_float64_def Let_def)

end
